theory Spec2Isabelle
  imports Complex_Main
begin

section \<open>Data model of cvrp.ts\<close>

text \<open>
  The TypeScript \<^verbatim>\<open>number\<close> is read as an exact real where it is a demand, a
  capacity, a coordinate or a saving value, and as an integer where it is an
  identity (\<^verbatim>\<open>Vehicle.id\<close>, the numeric alternative of \<^verbatim>\<open>IDType\<close>). The
  distances that the nearest-depot search compares are values of the type
  \<open>Number\<close> below, which has the infinities and NaN of IEEE doubles, because the
  search starts from \<^verbatim>\<open>Infinity\<close> and its comparison is false on NaN.

  The source compares identities in three ways. The strict \<^verbatim>\<open>===\<close> and the key
  equality of \<^verbatim>\<open>Map\<close> are structural equality on \<open>IDType\<close>: a string never
  equals a number. The loose \<^verbatim>\<open>==\<close> of the endpoint tests converts a string to
  a number before it compares it with a number, so that \<^verbatim>\<open>'1' == 1\<close> holds; it
  is the function \<open>looseEq\<close> below. Field names that clash with HOL constants or
  with bound variables carry the name of their type as a suffix.
\<close>

datatype NodeType = ORDER | VENDOR

datatype IDType = IdString string | IdNumber int

record Coordinate =
  lat :: real
  long :: real

record Vehicle = Coordinate +
  id_Vehicle :: int
  capacity :: "real option"

record NodeV = Coordinate +
  id_NodeV :: IDType
  type :: NodeType
  demand :: real
  vendorId :: "IDType option"

record Saving =
  i_Saving :: IDType
  j_Saving :: IDType
  saving :: real

record Route =
  nodes :: "IDType list"
  capacityUsed :: real
  vehicleCapacity :: real

definition VEHICLE_INITIAL_CAPACITY :: real where
  "VEHICLE_INITIAL_CAPACITY = 10"

section \<open>Loose equality of identities\<close>

text \<open>
  The conversion of a string to a number (the language's \<^verbatim>\<open>ToNumber\<close>) is a
  parameter of the model: \<open>strNum s n\<close> reads "the string \<open>s\<close> converts to the
  number \<open>n\<close>". Nothing is assumed about it, so what is proved holds for the
  language's conversion, under which \<open>strNum ''1'' 1\<close> is true.
\<close>

type_synonym StringToNumber = "string \<Rightarrow> int \<Rightarrow> bool"

text \<open>
  \<^verbatim>\<open>a == b\<close> on two identities: two strings and two numbers are compared as
  they are, a string and a number after the string is converted.
\<close>

fun looseEq :: "StringToNumber \<Rightarrow> IDType \<Rightarrow> IDType \<Rightarrow> bool" where
  "looseEq strNum (IdString a) (IdString b) = (a = b)"
| "looseEq strNum (IdNumber a) (IdNumber b) = (a = b)"
| "looseEq strNum (IdString a) (IdNumber b) = strNum a b"
| "looseEq strNum (IdNumber a) (IdString b) = strNum b a"

section \<open>Numbers with infinities and NaN\<close>

text \<open>
  A double as the nearest-depot search sees it, and \<^verbatim>\<open>a < b\<close> on doubles: false
  as soon as one side is NaN.
\<close>

datatype Number = Finite real | PlusInfinity | MinusInfinity | NaN

fun numberLess :: "Number \<Rightarrow> Number \<Rightarrow> bool" where
  "numberLess (Finite a) (Finite b) = (a < b)"
| "numberLess (Finite a) PlusInfinity = True"
| "numberLess MinusInfinity (Finite b) = True"
| "numberLess MinusInfinity PlusInfinity = True"
| "numberLess a b = False"

section \<open>Distance\<close>

definition degreesToRadians :: "real \<Rightarrow> real" where
  "degreesToRadians degrees = degrees * (pi / 180)"

text \<open>\<^verbatim>\<open>Math.atan2(y, x)\<close> on finite arguments, all four quadrants and the axes.\<close>

definition atan2 :: "real \<Rightarrow> real \<Rightarrow> real" where
  "atan2 y x =
     (if 0 < x then arctan (y / x)
      else if x < 0 then (if 0 \<le> y then arctan (y / x) + pi else arctan (y / x) - pi)
      else if 0 < y then pi / 2
      else if y < 0 then - (pi / 2)
      else 0)"

text \<open>
  The haversine distance, with the Earth's radius of 6371 kilometres, in exact
  real arithmetic: there \<open>halfChordSquared\<close> lies between 0 and 1 and both square
  roots are taken of non-negative numbers. It gives the saving values. In the
  double arithmetic of the source \<open>halfChordSquared\<close> can round above 1 for two
  points that are nearly antipodal: for the points (8, 0) and (-8, 180) it is
  1.0000000000000002, the square root of \<open>1 - halfChordSquared\<close> is NaN and so is
  the distance. The nearest-depot search, whose result depends on such a value,
  therefore takes the distance that the source computes as a parameter of type
  \<open>Number\<close> (section Clusters).
\<close>

definition distance :: "'a Coordinate_scheme \<Rightarrow> 'b Coordinate_scheme \<Rightarrow> real" where
  "distance nodeA nodeB =
     (let RADIUS_OF_EARTH = 6371;
          diffLat = degreesToRadians (lat nodeB - lat nodeA);
          diffLon = degreesToRadians (long nodeB - long nodeA);
          halfChordSquared =
            sin (diffLat / 2) * sin (diffLat / 2) +
            cos (degreesToRadians (lat nodeA)) *
              cos (degreesToRadians (lat nodeB)) *
              sin (diffLon / 2) *
              sin (diffLon / 2);
          angularDistance =
            2 * atan2 (sqrt halfChordSquared) (sqrt (1 - halfChordSquared))
      in RADIUS_OF_EARTH * angularDistance)"

section \<open>Savings\<close>

text \<open>
  The two index loops of \<^verbatim>\<open>calculateSavings\<close>: the inner one runs \<open>j\<close> from its
  start to the end of the list for a fixed \<open>i\<close>, the outer one runs \<open>i\<close>; both
  push onto \<open>savingsList\<close>.
\<close>

function calculateSavings_inner ::
  "Vehicle \<Rightarrow> NodeV list \<Rightarrow> nat \<Rightarrow> nat \<Rightarrow> Saving list \<Rightarrow> Saving list" where
  "calculateSavings_inner depot nodeList i j savingsList =
     (if j < length nodeList then
        calculateSavings_inner depot nodeList i (j + 1)
          (if type (nodeList ! i) = ORDER \<and> type (nodeList ! j) = ORDER then
             (let savingValue =
                    distance depot (nodeList ! i) +
                    distance depot (nodeList ! j) -
                    distance (nodeList ! i) (nodeList ! j)
              in savingsList @
                   [\<lparr>i_Saving = id_NodeV (nodeList ! i),
                     j_Saving = id_NodeV (nodeList ! j),
                     saving = savingValue\<rparr>])
           else savingsList)
      else savingsList)"
  by pat_completeness auto
termination
  by (relation "measure (\<lambda>(depot, nodeList, i, j, savingsList). length nodeList - j)") auto

function calculateSavings_outer ::
  "Vehicle \<Rightarrow> NodeV list \<Rightarrow> nat \<Rightarrow> Saving list \<Rightarrow> Saving list" where
  "calculateSavings_outer depot nodeList i savingsList =
     (if i < length nodeList then
        calculateSavings_outer depot nodeList (i + 1)
          (calculateSavings_inner depot nodeList i (i + 1) savingsList)
      else savingsList)"
  by pat_completeness auto
termination
  by (relation "measure (\<lambda>(depot, nodeList, i, savingsList). length nodeList - i)") auto

declare calculateSavings_inner.simps [simp del] calculateSavings_outer.simps [simp del]

definition calculateSavings :: "Vehicle \<Rightarrow> NodeV list \<Rightarrow> Saving list" where
  "calculateSavings depot nodeList = calculateSavings_outer depot nodeList 0 []"

section \<open>The Clarke-Wright merge\<close>

text \<open>
  A \<^verbatim>\<open>Route\<close> is a mutable object that the array \<^verbatim>\<open>routes\<close> and the map
  \<^verbatim>\<open>nodeToRoute\<close> both refer to. The store keeps every Route object ever
  created in \<open>heap\<close> (an object's address is its position, allocation appends);
  \<open>routes\<close> and \<open>nodeToRoute\<close> hold addresses, so that an update through one
  reference is seen through every other, as in the source.
\<close>

record Store =
  heap :: "Route list"
  routes :: "nat list"
  nodeToRoute :: "IDType \<Rightarrow> nat option"

definition emptyStore :: Store where
  "emptyStore = \<lparr>heap = [], routes = [], nodeToRoute = (\<lambda>k. None)\<rparr>"

text \<open>\<^verbatim>\<open>depot.capacity ?? VEHICLE_INITIAL_CAPACITY\<close>\<close>

definition capacityOrDefault :: "Vehicle \<Rightarrow> real" where
  "capacityOrDefault depot =
     (case capacity depot of None \<Rightarrow> VEHICLE_INITIAL_CAPACITY | Some c \<Rightarrow> c)"

text \<open>\<^verbatim>\<open>node.type === NodeType.ORDER ? node.demand : -node.demand\<close>\<close>

definition demandEffect :: "NodeV \<Rightarrow> real" where
  "demandEffect node = (if type node = ORDER then demand node else - demand node)"

text \<open>
  \<^verbatim>\<open>xs[0] == v\<close> and \<^verbatim>\<open>xs[xs.length - 1] == v\<close>, with the loose equality: on an
  empty array the element is \<^verbatim>\<open>undefined\<close>, which equals no identity.
\<close>

definition firstIs :: "StringToNumber \<Rightarrow> IDType list \<Rightarrow> IDType \<Rightarrow> bool" where
  "firstIs strNum xs v = (case xs of [] \<Rightarrow> False | x # _ \<Rightarrow> looseEq strNum x v)"

definition lastIs :: "StringToNumber \<Rightarrow> IDType list \<Rightarrow> IDType \<Rightarrow> bool" where
  "lastIs strNum xs v = (case xs of [] \<Rightarrow> False | _ # _ \<Rightarrow> looseEq strNum (last xs) v)"

text \<open>\<^verbatim>\<open>routes.indexOf(r)\<close>: \<open>None\<close> is the source's \<open>-1\<close>.\<close>

fun indexOf :: "nat list \<Rightarrow> nat \<Rightarrow> nat option" where
  "indexOf [] r = None"
| "indexOf (x # xs) r = (if x = r then Some 0 else map_option Suc (indexOf xs r))"

text \<open>
  \<^verbatim>\<open>routes.splice(index, 1)\<close>: a found index removes that element; the index
  \<open>-1\<close> counts from the end, so it removes the last element (nothing when the
  array is empty).
\<close>

definition splice1 :: "nat list \<Rightarrow> nat option \<Rightarrow> nat list" where
  "splice1 xs index =
     (case index of Some k \<Rightarrow> take k xs @ drop (Suc k) xs | None \<Rightarrow> butlast xs)"

text \<open>Allocation of a fresh Route object, followed by \<^verbatim>\<open>routes.push\<close>.\<close>

definition pushNewRoute :: "Route \<Rightarrow> Store \<Rightarrow> Store" where
  "pushNewRoute newRoute st =
     st\<lparr>heap := heap st @ [newRoute], routes := routes st @ [length (heap st)]\<rparr>"

definition setNodeToRoute :: "IDType \<Rightarrow> nat \<Rightarrow> Store \<Rightarrow> Store" where
  "setNodeToRoute k r st = st\<lparr>nodeToRoute := (nodeToRoute st)(k \<mapsto> r)\<rparr>"

text \<open>
  The body of the loop over the ranked savings (steps 3a to 3c). The two
  \<^verbatim>\<open>find\<close> calls compare with \<^verbatim>\<open>===\<close>, the endpoint tests with \<^verbatim>\<open>==\<close>,
  for which the step takes the conversion \<open>strNum\<close>; \<^verbatim>\<open>route_i !== route_j\<close>
  compares two objects, here their addresses.
\<close>

definition processSaving ::
  "StringToNumber \<Rightarrow> Vehicle \<Rightarrow> NodeV list \<Rightarrow> Saving \<Rightarrow> Store \<Rightarrow> Store" where
  "processSaving strNum depot nodeList sv st =
     (let route_i = nodeToRoute st (i_Saving sv);
          route_j = nodeToRoute st (j_Saving sv);
          node_i = find (\<lambda>node. id_NodeV node = i_Saving sv) nodeList;
          node_j = find (\<lambda>node. id_NodeV node = j_Saving sv) nodeList
      in case (node_i, node_j) of
           (Some node_i, Some node_j) \<Rightarrow>
             (case (route_i, route_j) of
                (None, None) \<Rightarrow>
                  (let newCapacityUsed =
                         capacityOrDefault depot - demandEffect node_i - demandEffect node_j
                   in if 0 \<le> newCapacityUsed then
                        setNodeToRoute (j_Saving sv) (length (heap st))
                          (setNodeToRoute (i_Saving sv) (length (heap st))
                             (pushNewRoute
                                \<lparr>nodes = [i_Saving sv, j_Saving sv],
                                  capacityUsed = newCapacityUsed,
                                  vehicleCapacity = capacityOrDefault depot\<rparr> st))
                      else st)
              | (Some ri, None) \<Rightarrow>
                  (let newCapacityUsed = capacityUsed (heap st ! ri) - demandEffect node_j
                   in if 0 \<le> newCapacityUsed then
                        setNodeToRoute (j_Saving sv) ri
                          (st\<lparr>heap := (heap st)[ri := (heap st ! ri)
                                \<lparr>nodes :=
                                   (if firstIs strNum (nodes (heap st ! ri)) (i_Saving sv)
                                    then j_Saving sv # nodes (heap st ! ri)
                                    else nodes (heap st ! ri) @ [j_Saving sv]),
                                 capacityUsed := newCapacityUsed\<rparr>]\<rparr>)
                      else st)
              | (None, Some rj) \<Rightarrow>
                  (let newCapacityUsed = capacityUsed (heap st ! rj) - demandEffect node_i
                   in if 0 \<le> newCapacityUsed then
                        setNodeToRoute (i_Saving sv) rj
                          (st\<lparr>heap := (heap st)[rj := (heap st ! rj)
                                \<lparr>nodes :=
                                   (if firstIs strNum (nodes (heap st ! rj)) (j_Saving sv)
                                    then i_Saving sv # nodes (heap st ! rj)
                                    else nodes (heap st ! rj) @ [i_Saving sv]),
                                 capacityUsed := newCapacityUsed\<rparr>]\<rparr>)
                      else st)
              | (Some ri, Some rj) \<Rightarrow>
                  (if ri \<noteq> rj then
                     (let newCapacityForRouteI =
                            capacityUsed (heap st ! ri) - demandEffect node_j;
                          newCapacityForRouteJ =
                            capacityUsed (heap st ! rj) - demandEffect node_i
                      in if 0 \<le> newCapacityForRouteI \<and> 0 \<le> newCapacityForRouteJ then
                           (if lastIs strNum (nodes (heap st ! ri)) (i_Saving sv) \<and>
                               firstIs strNum (nodes (heap st ! rj)) (j_Saving sv)
                            then
                              (setNodeToRoute (j_Saving sv) ri
                                 (st\<lparr>heap := (heap st)[ri := (heap st ! ri)
                                       \<lparr>nodes := nodes (heap st ! ri) @ nodes (heap st ! rj),
                                        capacityUsed := newCapacityForRouteI\<rparr>]\<rparr>))
                              \<lparr>routes := splice1 (routes st) (indexOf (routes st) rj)\<rparr>
                            else if firstIs strNum (nodes (heap st ! ri)) (i_Saving sv) \<and>
                                    lastIs strNum (nodes (heap st ! rj)) (j_Saving sv)
                            then
                              (setNodeToRoute (i_Saving sv) ri
                                 (st\<lparr>heap := (heap st)[ri := (heap st ! ri)
                                       \<lparr>nodes := nodes (heap st ! rj) @ nodes (heap st ! ri),
                                        capacityUsed := newCapacityForRouteJ\<rparr>]\<rparr>))
                              \<lparr>routes := splice1 (routes st) (indexOf (routes st) rj)\<rparr>
                            else st)
                         else st)
                   else st))
         | _ \<Rightarrow> st)"

text \<open>
  The body of the loop over the nodes that follows the savings loop: a node
  whose identity has no entry in \<^verbatim>\<open>nodeToRoute\<close> gets a one-node Route when its
  demand fits; otherwise nothing is done (the source has a TODO there).
\<close>

definition fallbackNode :: "Vehicle \<Rightarrow> NodeV \<Rightarrow> Store \<Rightarrow> Store" where
  "fallbackNode depot node st =
     (if nodeToRoute st (id_NodeV node) = None then
        (if type node = ORDER \<and> demand node \<le> capacityOrDefault depot then
           setNodeToRoute (id_NodeV node) (length (heap st))
             (pushNewRoute
                \<lparr>nodes = [id_NodeV node],
                  capacityUsed = capacityOrDefault depot - demand node,
                  vehicleCapacity = capacityOrDefault depot\<rparr> st)
         else if type node = VENDOR \<and> \<bar>demand node\<bar> \<le> capacityOrDefault depot then
           setNodeToRoute (id_NodeV node) (length (heap st))
             (pushNewRoute
                \<lparr>nodes = [id_NodeV node],
                  capacityUsed = capacityOrDefault depot + demand node,
                  vehicleCapacity = capacityOrDefault depot\<rparr> st)
         else st)
      else st)"

text \<open>
  \<^verbatim>\<open>savingsList.sort((a, b) => b.saving - a.saving)\<close>: a stable sort, descending by
  saving value (\<open>sort_key\<close> is the stable insertion sort of the library).
\<close>

definition sortSavings :: "Saving list \<Rightarrow> Saving list" where
  "sortSavings savingsList = sort_key (\<lambda>s. - saving s) savingsList"

definition savingsLoop ::
  "StringToNumber \<Rightarrow> Vehicle \<Rightarrow> NodeV list \<Rightarrow> Saving list \<Rightarrow> Store \<Rightarrow> Store" where
  "savingsLoop strNum depot nodeList savingsList st =
     fold (processSaving strNum depot nodeList) savingsList st"

definition fallbackLoop :: "Vehicle \<Rightarrow> NodeV list \<Rightarrow> Store \<Rightarrow> Store" where
  "fallbackLoop depot nodeList st = fold (fallbackNode depot) nodeList st"

text \<open>The returned array: the Route objects that \<open>routes\<close> refers to, in its order.\<close>

definition routesOf :: "Store \<Rightarrow> Route list" where
  "routesOf st = map (\<lambda>r. heap st ! r) (routes st)"

definition afterSavings :: "StringToNumber \<Rightarrow> Vehicle \<Rightarrow> NodeV list \<Rightarrow> Store" where
  "afterSavings strNum depot nodeList =
     savingsLoop strNum depot nodeList (sortSavings (calculateSavings depot nodeList)) emptyStore"

definition clarkWright :: "StringToNumber \<Rightarrow> Vehicle \<Rightarrow> NodeV list \<Rightarrow> Route list" where
  "clarkWright strNum depot nodeList =
     routesOf (fallbackLoop depot nodeList (afterSavings strNum depot nodeList))"

section \<open>Clusters\<close>

record VendorOrderCluster =
  vendor :: NodeV
  orders :: "NodeV list"

definition isAssociatedWithVendor :: "NodeV \<Rightarrow> NodeV \<Rightarrow> bool" where
  "isAssociatedWithVendor order' vendor' = (vendorId order' = Some (id_NodeV vendor'))"

text \<open>
  The loop of \<^verbatim>\<open>getNearestDepot\<close> over the pair (\<open>nearestDepotId\<close>,
  \<open>nearestDepotDistance\<close>), which starts at (\<^verbatim>\<open>null\<close>, \<^verbatim>\<open>Infinity\<close>). The
  parameter \<open>distNum\<close> is the value that the call \<^verbatim>\<open>distance(depot, location)\<close>
  returns in the source's double arithmetic; the test
  \<^verbatim>\<open>_distance < nearestDepotDistance\<close> is \<open>numberLess\<close>, so a depot at distance NaN
  or \<^verbatim>\<open>Infinity\<close> is never taken.
\<close>

fun getNearestDepot_loop ::
  "(Vehicle \<Rightarrow> 'a Coordinate_scheme \<Rightarrow> Number) \<Rightarrow> Vehicle list \<Rightarrow> 'a Coordinate_scheme
     \<Rightarrow> IDType option \<times> Number \<Rightarrow> IDType option \<times> Number" where
  "getNearestDepot_loop distNum [] location acc = acc"
| "getNearestDepot_loop distNum (depot # depotList) location (nearestDepotId, nearestDepotDistance) =
     (let distance' = distNum depot location
      in if numberLess distance' nearestDepotDistance then
           getNearestDepot_loop distNum depotList location
             (Some (IdNumber (id_Vehicle depot)), distance')
         else getNearestDepot_loop distNum depotList location
                (nearestDepotId, nearestDepotDistance))"

definition getNearestDepot ::
  "(Vehicle \<Rightarrow> 'a Coordinate_scheme \<Rightarrow> Number) \<Rightarrow> Vehicle list \<Rightarrow> 'a Coordinate_scheme
     \<Rightarrow> IDType option" where
  "getNearestDepot distNum depotList location =
     fst (getNearestDepot_loop distNum depotList location (None, PlusInfinity))"

text \<open>The body of the loop of \<^verbatim>\<open>formDepotClusters\<close> over the vendors.\<close>

definition addVendorCluster ::
  "(Vehicle \<Rightarrow> NodeV \<Rightarrow> Number) \<Rightarrow> Vehicle list \<Rightarrow> NodeV list \<Rightarrow> NodeV
     \<Rightarrow> (IDType \<Rightarrow> VendorOrderCluster list option)
     \<Rightarrow> (IDType \<Rightarrow> VendorOrderCluster list option)" where
  "addVendorCluster distNum depotList orderList vendor' depotClusters =
     (let associatedOrders = filter (\<lambda>order'. isAssociatedWithVendor order' vendor') orderList;
          nearestDepotId = getNearestDepot distNum depotList vendor'
      in case nearestDepotId of
           None \<Rightarrow> depotClusters
         | Some k \<Rightarrow>
             (let depotClusters' =
                    (if depotClusters k = None then depotClusters(k \<mapsto> []) else depotClusters)
              in depotClusters'(k \<mapsto>
                   (case depotClusters' k of None \<Rightarrow> [] | Some cs \<Rightarrow> cs) @
                     [\<lparr>vendor = vendor', orders = associatedOrders\<rparr>])))"

definition formDepotClusters ::
  "(Vehicle \<Rightarrow> NodeV \<Rightarrow> Number) \<Rightarrow> Vehicle list \<Rightarrow> NodeV list \<Rightarrow> NodeV list
     \<Rightarrow> (IDType \<Rightarrow> VendorOrderCluster list option)" where
  "formDepotClusters distNum depotList vendorList orderList =
     fold (addVendorCluster distNum depotList orderList) vendorList (\<lambda>k. None)"

text \<open>The body of the loop of \<^verbatim>\<open>routeWithinClusters\<close> over the depots.\<close>

definition routeDepot ::
  "StringToNumber \<Rightarrow> (IDType \<Rightarrow> VendorOrderCluster list option) \<Rightarrow> Vehicle
     \<Rightarrow> (IDType \<Rightarrow> Route list option) \<Rightarrow> (IDType \<Rightarrow> Route list option)" where
  "routeDepot strNum depotClusters depot depotRoutes =
     (case depotClusters (IdNumber (id_Vehicle depot)) of
        None \<Rightarrow> depotRoutes
      | Some clusters \<Rightarrow>
          depotRoutes(IdNumber (id_Vehicle depot) \<mapsto>
            fold (\<lambda>cluster allRoutesForDepot.
                    allRoutesForDepot @
                      clarkWright strNum depot (vendor cluster # orders cluster))
              clusters []))"

definition routeWithinClusters ::
  "StringToNumber \<Rightarrow> Vehicle list \<Rightarrow> (IDType \<Rightarrow> VendorOrderCluster list option)
     \<Rightarrow> (IDType \<Rightarrow> Route list option)" where
  "routeWithinClusters strNum depotList depotClusters =
     fold (routeDepot strNum depotClusters) depotList (\<lambda>k. None)"

definition multiDepotVehicleRouter ::
  "(Vehicle \<Rightarrow> NodeV \<Rightarrow> Number) \<Rightarrow> StringToNumber \<Rightarrow> Vehicle list \<Rightarrow> NodeV list \<Rightarrow> NodeV list
     \<Rightarrow> (IDType \<Rightarrow> Route list option)" where
  "multiDepotVehicleRouter distNum strNum vehicleList vendorList orderList =
     routeWithinClusters strNum vehicleList
       (formDepotClusters distNum vehicleList vendorList orderList)"

section \<open>Notions used to state the properties\<close>

text \<open>
  The Saving record that \<^verbatim>\<open>calculateSavings\<close> pushes for a pair of nodes, and the
  pairs of positions \<open>a < b\<close> of the node list at which both nodes are orders, in
  lexicographic order.
\<close>

definition savingOf :: "Vehicle \<Rightarrow> NodeV \<Rightarrow> NodeV \<Rightarrow> Saving" where
  "savingOf depot node_i node_j =
     \<lparr>i_Saving = id_NodeV node_i, j_Saving = id_NodeV node_j,
      saving = distance depot node_i + distance depot node_j - distance node_i node_j\<rparr>"

definition orderPairs :: "NodeV list \<Rightarrow> (nat \<times> nat) list" where
  "orderPairs nodeList =
     filter (\<lambda>(a, b). a < b \<and> type (nodeList ! a) = ORDER \<and> type (nodeList ! b) = ORDER)
       (List.product [0..<length nodeList] [0..<length nodeList])"

text \<open>
  The two tests of the fallback loop (an order whose demand is at most the
  capacity, a vendor whose absolute demand is), and the one-node Route it creates.
\<close>

definition fits :: "Vehicle \<Rightarrow> NodeV \<Rightarrow> bool" where
  "fits depot node \<longleftrightarrow>
     (type node = ORDER \<and> demand node \<le> capacityOrDefault depot) \<or>
     (type node = VENDOR \<and> \<bar>demand node\<bar> \<le> capacityOrDefault depot)"

definition fallbackRoute :: "Vehicle \<Rightarrow> NodeV \<Rightarrow> Route" where
  "fallbackRoute depot node =
     \<lparr>nodes = [id_NodeV node],
      capacityUsed = (if type node = ORDER then capacityOrDefault depot - demand node
                      else capacityOrDefault depot + demand node),
      vehicleCapacity = capacityOrDefault depot\<rparr>"

text \<open>
  The load of a Route: the sum of the demand effects of its member nodes, each
  identity looked up in the node list as the merge loop does.
\<close>

definition routeLoad :: "NodeV list \<Rightarrow> Route \<Rightarrow> real" where
  "routeLoad nodeList r =
     sum_list (map (\<lambda>k. case find (\<lambda>node. id_NodeV node = k) nodeList of
                            None \<Rightarrow> 0 | Some node \<Rightarrow> demandEffect node)
                 (nodes r))"

text \<open>The cluster that \<^verbatim>\<open>formDepotClusters\<close> pushes for a vendor.\<close>

definition clusterOf :: "NodeV list \<Rightarrow> NodeV \<Rightarrow> VendorOrderCluster" where
  "clusterOf orderList vendor' =
     \<lparr>vendor = vendor',
      orders = filter (\<lambda>order'. vendorId order' = Some (id_NodeV vendor')) orderList\<rparr>"

text \<open>Every address held by \<open>routes\<close> and \<open>nodeToRoute\<close> is the address of an object.\<close>

definition wfStore :: "Store \<Rightarrow> bool" where
  "wfStore st \<longleftrightarrow>
     (\<forall>r \<in> set (routes st). r < length (heap st)) \<and>
     (\<forall>k r. nodeToRoute st k = Some r \<longrightarrow> r < length (heap st))"

section \<open>Sample inputs\<close>

text \<open>
  Depots and nodes on the equator, where the haversine distance is the
  difference of the longitudes (in radians) times the radius.
\<close>

definition depotAt :: "int \<Rightarrow> real \<Rightarrow> real option \<Rightarrow> Vehicle" where
  "depotAt ident lon cap = \<lparr>lat = 0, long = lon, id_Vehicle = ident, capacity = cap\<rparr>"

definition orderAt :: "string \<Rightarrow> real \<Rightarrow> real \<Rightarrow> NodeV" where
  "orderAt name lon d =
     \<lparr>lat = 0, long = lon, id_NodeV = IdString name, type = ORDER, demand = d,
      vendorId = None\<rparr>"

definition vendorAt :: "string \<Rightarrow> real \<Rightarrow> real \<Rightarrow> NodeV" where
  "vendorAt name lon d =
     \<lparr>lat = 0, long = lon, id_NodeV = IdString name, type = VENDOR, demand = d,
      vendorId = None\<rparr>"

definition orderFrom :: "string \<Rightarrow> string \<Rightarrow> real \<Rightarrow> real \<Rightarrow> NodeV" where
  "orderFrom vendorName name lon d =
     \<lparr>lat = 0, long = lon, id_NodeV = IdString name, type = ORDER, demand = d,
      vendorId = Some (IdString vendorName)\<rparr>"

definition savingRec :: "string \<Rightarrow> string \<Rightarrow> real \<Rightarrow> Saving" where
  "savingRec a b s = \<lparr>i_Saving = IdString a, j_Saving = IdString b, saving = s\<rparr>"

text \<open>
  A depot at latitude 8 and longitude 0, and a vendor at latitude -8 and
  longitude 180, close to the depot's antipode. For this pair the source computes
  \<open>halfChordSquared\<close> = 1.0000000000000002, takes the square root of a negative
  number and returns NaN. \<open>sampleDistance\<close> is the source's value for this pair.
  The samples use it at one other pair only, this depot and a vendor on the
  equator at longitude 1, some 900 kilometres away, where the source's value is
  a finite number, as is the exact distance that stands for it.
\<close>

definition depotNorth :: Vehicle where
  "depotNorth = \<lparr>lat = 8, long = 0, id_Vehicle = 1, capacity = None\<rparr>"

definition vendorAntipode :: NodeV where
  "vendorAntipode =
     \<lparr>lat = - 8, long = 180, id_NodeV = IdString ''V'', type = VENDOR, demand = - 2,
      vendorId = None\<rparr>"

definition sampleDistance :: "Vehicle \<Rightarrow> NodeV \<Rightarrow> Number" where
  "sampleDistance depot location =
     (if lat depot = 8 \<and> long depot = 0 \<and> lat location = - 8 \<and> long location = 180 then NaN
      else Finite (distance depot location))"

section \<open>Distances on the equator\<close>

lemma atan2_sin_cos:
  assumes "0 \<le> t" "t \<le> pi / 2"
  shows "atan2 (sin t) (cos t) = t"
proof (cases "t = pi / 2")
  case True
  show ?thesis unfolding True by (simp add: atan2_def)
next
  case False
  with assms have lt: "t < pi / 2" by simp
  with assms have "0 < cos t" by (intro cos_gt_zero_pi) auto
  moreover have "arctan (sin t / cos t) = t"
    using arctan_tan[of t] assms lt by (simp add: tan_def)
  ultimately show ?thesis by (simp add: atan2_def)
qed

lemma haversine_angle:
  assumes "\<bar>t\<bar> \<le> pi / 2"
  shows "atan2 (sqrt (sin t * sin t)) (sqrt (1 - sin t * sin t)) = \<bar>t\<bar>"
proof -
  have s: "sqrt (sin t * sin t) = sin \<bar>t\<bar>"
  proof -
    have "0 \<le> sin \<bar>t\<bar>" using assms by (intro sin_ge_zero) (auto intro: order_trans)
    moreover have "sin \<bar>t\<bar> * sin \<bar>t\<bar> = sin t * sin t"
      by (cases "0 \<le> t") (simp_all add: abs_if)
    ultimately show ?thesis by (metis real_sqrt_abs2 abs_of_nonneg)
  qed
  have "1 - sin t * sin t = cos t * cos t"
    using sin_cos_squared_add[of t] by (simp add: power2_eq_square algebra_simps)
  moreover have "0 \<le> cos \<bar>t\<bar>" using assms by (intro cos_ge_zero) auto
  moreover have "cos \<bar>t\<bar> = cos t" by (simp add: abs_if)
  ultimately have c: "sqrt (1 - sin t * sin t) = cos \<bar>t\<bar>"
    by (metis real_sqrt_abs2 abs_of_nonneg)
  show ?thesis unfolding s c using assms by (intro atan2_sin_cos) auto
qed

lemma distance_equator:
  assumes "lat a = 0" "lat b = 0" "\<bar>long b - long a\<bar> \<le> 180"
  shows "distance a b = 6371 * (\<bar>long b - long a\<bar> * pi / 180)"
proof -
  define t where "t = degreesToRadians (long b - long a) / 2"
  have t: "\<bar>t\<bar> = \<bar>long b - long a\<bar> * pi / 360"
    by (simp add: t_def degreesToRadians_def abs_mult)
  have "\<bar>t\<bar> \<le> pi / 2" using assms(3) unfolding t by simp
  from haversine_angle[OF this]
  have h: "atan2 (sqrt (sin t * sin t)) (sqrt (1 - sin t * sin t)) =
             \<bar>long b - long a\<bar> * pi / 360"
    unfolding t .
  have "distance a b = 6371 * (2 * atan2 (sqrt (sin t * sin t)) (sqrt (1 - sin t * sin t)))"
    using assms(1,2) by (simp add: distance_def Let_def t_def degreesToRadians_def)
  also have "\<dots> = 6371 * (\<bar>long b - long a\<bar> * pi / 180)"
    unfolding h by simp
  finally show ?thesis .
qed

lemma pi_not_le_zero: "\<not> pi \<le> 0"
  using pi_gt_zero by (simp only: not_le)

subsection \<open>The sample inputs\<close>

lemma distance_depotAt_orderAt:
  "\<bar>y - x\<bar> \<le> 180 \<Longrightarrow>
   distance (depotAt k x c) (orderAt n y d) = 6371 * (\<bar>y - x\<bar> * pi / 180)"
  by (simp add: distance_equator depotAt_def orderAt_def)

lemma distance_orderAt_orderAt:
  "\<bar>y - x\<bar> \<le> 180 \<Longrightarrow>
   distance (orderAt m x e) (orderAt n y d) = 6371 * (\<bar>y - x\<bar> * pi / 180)"
  by (simp add: distance_equator orderAt_def)

lemma distance_depotAt_vendorAt:
  "\<bar>y - x\<bar> \<le> 180 \<Longrightarrow>
   distance (depotAt k x c) (vendorAt n y d) = 6371 * (\<bar>y - x\<bar> * pi / 180)"
  by (simp add: distance_equator depotAt_def vendorAt_def)

lemma orderAt_sel:
  "id_NodeV (orderAt n y d) = IdString n" "type (orderAt n y d) = ORDER"
  "demand (orderAt n y d) = d" "vendorId (orderAt n y d) = None"
  by (simp_all add: orderAt_def)

lemma vendorAt_sel:
  "id_NodeV (vendorAt n y d) = IdString n" "type (vendorAt n y d) = VENDOR"
  "demand (vendorAt n y d) = d" "vendorId (vendorAt n y d) = None"
  by (simp_all add: vendorAt_def)

lemma orderFrom_sel:
  "id_NodeV (orderFrom v n y d) = IdString n" "type (orderFrom v n y d) = ORDER"
  "demand (orderFrom v n y d) = d" "vendorId (orderFrom v n y d) = Some (IdString v)"
  by (simp_all add: orderFrom_def)

lemma depotAt_sel: "capacity (depotAt k x c) = c" "id_Vehicle (depotAt k x c) = k"
  by (simp_all add: depotAt_def)

lemma savingRec_sel:
  "saving (savingRec a b s) = s" "i_Saving (savingRec a b s) = IdString a"
  "j_Saving (savingRec a b s) = IdString b"
  by (simp_all add: savingRec_def)

lemmas sample_simps =
  distance_depotAt_orderAt distance_orderAt_orderAt distance_depotAt_vendorAt
  orderAt_sel vendorAt_sel orderFrom_sel depotAt_sel savingRec_sel pi_not_le_zero

lemmas savings_eval =
  calculateSavings_def calculateSavings_outer.simps calculateSavings_inner.simps

lemmas merge_eval =
  savingsLoop_def fallbackLoop_def routesOf_def processSaving_def fallbackNode_def
  emptyStore_def pushNewRoute_def setNodeToRoute_def capacityOrDefault_def demandEffect_def
  VEHICLE_INITIAL_CAPACITY_def firstIs_def lastIs_def splice1_def Let_def

section \<open>The savings list\<close>

lemma calculateSavings_inner_eq:
  "j \<le> length nodeList \<Longrightarrow>
   calculateSavings_inner depot nodeList i j savingsList =
     savingsList @
       map (\<lambda>b. savingOf depot (nodeList ! i) (nodeList ! b))
         (filter (\<lambda>b. type (nodeList ! i) = ORDER \<and> type (nodeList ! b) = ORDER)
            [j..<length nodeList])"
proof (induction depot nodeList i j savingsList rule: calculateSavings_inner.induct)
  case (1 depot nodeList i j savingsList)
  show ?case
  proof (cases "j < length nodeList")
    case True
    then have up: "[j..<length nodeList] = j # [j + 1..<length nodeList]"
      by (simp add: upt_conv_Cons)
    from True have "j + 1 \<le> length nodeList" by simp
    note ih = "1.IH"[OF True this]
    show ?thesis
      by (subst calculateSavings_inner.simps)
         (simp only: True if_True ih, simp add: up savingOf_def Let_def)
  next
    case False
    with "1.prems" show ?thesis by (subst calculateSavings_inner.simps) simp
  qed
qed

lemma calculateSavings_outer_eq:
  "i \<le> length nodeList \<Longrightarrow>
   calculateSavings_outer depot nodeList i savingsList =
     savingsList @
       concat (map (\<lambda>a. map (\<lambda>b. savingOf depot (nodeList ! a) (nodeList ! b))
                      (filter (\<lambda>b. type (nodeList ! a) = ORDER \<and> type (nodeList ! b) = ORDER)
                         [a + 1..<length nodeList]))
                 [i..<length nodeList])"
proof (induction depot nodeList i savingsList rule: calculateSavings_outer.induct)
  case (1 depot nodeList i savingsList)
  show ?case
  proof (cases "i < length nodeList")
    case True
    then have up: "[i..<length nodeList] = i # [i + 1..<length nodeList]"
      by (simp add: upt_conv_Cons)
    from True have le: "i + 1 \<le> length nodeList" by simp
    have "calculateSavings_outer depot nodeList i savingsList =
            calculateSavings_outer depot nodeList (i + 1)
              (calculateSavings_inner depot nodeList i (i + 1) savingsList)"
      by (subst calculateSavings_outer.simps) (simp only: True if_True)
    also note "1.IH"[OF True le]
    finally show ?thesis
      unfolding calculateSavings_inner_eq[OF le] by (simp add: up)
  next
    case False
    with "1.prems" show ?thesis by (subst calculateSavings_outer.simps) simp
  qed
qed

lemma filter_product:
  "map f (filter P (List.product as ys)) =
     concat (map (\<lambda>a. map (\<lambda>b. f (a, b)) (filter (\<lambda>b. P (a, b)) ys)) as)"
  by (induction as) (simp_all add: filter_map comp_def)

lemma filter_above:
  assumes "a < n"
  shows "filter (\<lambda>b. a < b \<and> Q b) [0..<n] = filter Q [a + 1..<n]"
proof -
  have "[0..<n] = [0..<a + 1] @ [a + 1..<n]"
    using upt_add_eq_append[of 0 "a + 1" "n - (a + 1)"] assms by simp
  moreover have "filter (\<lambda>b. a < b \<and> Q b) [0..<a + 1] = []" by (auto simp: filter_empty_conv)
  moreover have "filter (\<lambda>b. a < b \<and> Q b) [a + 1..<n] = filter Q [a + 1..<n]"
    by (rule filter_cong) auto
  ultimately show ?thesis by simp
qed

lemma calculateSavings_orderPairs:
  "calculateSavings depot nodeList =
     map (\<lambda>(a, b). savingOf depot (nodeList ! a) (nodeList ! b)) (orderPairs nodeList)"
proof -
  have "concat (map (\<lambda>a. map (\<lambda>b. savingOf depot (nodeList ! a) (nodeList ! b))
                      (filter (\<lambda>b. type (nodeList ! a) = ORDER \<and> type (nodeList ! b) = ORDER)
                         [a + 1..<length nodeList]))
                 [0..<length nodeList]) =
        concat (map (\<lambda>a. map (\<lambda>b. savingOf depot (nodeList ! a) (nodeList ! b))
                      (filter (\<lambda>b. a < b \<and> type (nodeList ! a) = ORDER \<and> type (nodeList ! b) = ORDER)
                         [0..<length nodeList]))
                 [0..<length nodeList])"
    by (intro arg_cong[where f = concat] map_cong refl) (simp add: filter_above)
  then show ?thesis
    by (simp add: calculateSavings_def calculateSavings_outer_eq orderPairs_def filter_product)
qed

lemma distinct_orderPairs: "distinct (orderPairs nodeList)"
  by (simp add: orderPairs_def distinct_product)

lemma set_orderPairs:
  "set (orderPairs nodeList) =
     {(a, b). a < b \<and> b < length nodeList \<and>
              type (nodeList ! a) = ORDER \<and> type (nodeList ! b) = ORDER}"
  by (auto simp: orderPairs_def)

section \<open>The endpoint tests\<close>

text \<open>
  On identities of one kind the endpoint tests are the structural ones; a
  string at the end of a Route matches a number exactly when it converts to it,
  as \<^verbatim>\<open>'1' == 1\<close> in the source.
\<close>

lemma firstIs_same_kind:
  "firstIs strNum (IdString a # xs) (IdString b) \<longleftrightarrow> a = b"
  "firstIs strNum (IdNumber m # xs) (IdNumber n) \<longleftrightarrow> m = n"
  by (simp_all add: firstIs_def)

lemma lastIs_same_kind:
  "lastIs strNum (xs @ [IdString a]) (IdString b) \<longleftrightarrow> a = b"
  "lastIs strNum (xs @ [IdNumber m]) (IdNumber n) \<longleftrightarrow> m = n"
  by (cases xs; simp add: lastIs_def)+

lemma firstIs_string_number:
  "firstIs strNum (IdString s # xs) (IdNumber n) \<longleftrightarrow> strNum s n"
  "firstIs strNum (IdNumber n # xs) (IdString s) \<longleftrightarrow> strNum s n"
  by (simp_all add: firstIs_def)

lemma lastIs_string_number:
  "lastIs strNum (xs @ [IdString s]) (IdNumber n) \<longleftrightarrow> strNum s n"
  "lastIs strNum (xs @ [IdNumber n]) (IdString s) \<longleftrightarrow> strNum s n"
  by (cases xs; simp add: lastIs_def)+

section \<open>One step of the savings loop\<close>

lemma processSaving_unknown:
  assumes "find (\<lambda>node. id_NodeV node = i_Saving sv) nodeList = None \<or>
           find (\<lambda>node. id_NodeV node = j_Saving sv) nodeList = None"
  shows "processSaving strNum depot nodeList sv st = st"
  using assms by (auto simp: processSaving_def split: option.splits)

lemma processSaving_neither:
  assumes "find (\<lambda>node. id_NodeV node = i_Saving sv) nodeList = Some node_i"
      and "find (\<lambda>node. id_NodeV node = j_Saving sv) nodeList = Some node_j"
      and "nodeToRoute st (i_Saving sv) = None" and "nodeToRoute st (j_Saving sv) = None"
  shows "processSaving strNum depot nodeList sv st =
     (if 0 \<le> capacityOrDefault depot - demandEffect node_i - demandEffect node_j then
        st\<lparr>heap := heap st @
               [\<lparr>nodes = [i_Saving sv, j_Saving sv],
                 capacityUsed = capacityOrDefault depot - demandEffect node_i - demandEffect node_j,
                 vehicleCapacity = capacityOrDefault depot\<rparr>],
            routes := routes st @ [length (heap st)],
            nodeToRoute := (nodeToRoute st)(i_Saving sv \<mapsto> length (heap st),
                                           j_Saving sv \<mapsto> length (heap st))\<rparr>
      else st)"
  using assms by (simp add: processSaving_def Let_def setNodeToRoute_def pushNewRoute_def)

lemma processSaving_i_assigned:
  assumes "find (\<lambda>node. id_NodeV node = i_Saving sv) nodeList = Some node_i"
      and "find (\<lambda>node. id_NodeV node = j_Saving sv) nodeList = Some node_j"
      and "nodeToRoute st (i_Saving sv) = Some ri" and "nodeToRoute st (j_Saving sv) = None"
  shows "processSaving strNum depot nodeList sv st =
     (if 0 \<le> capacityUsed (heap st ! ri) - demandEffect node_j then
        st\<lparr>heap := (heap st)[ri := (heap st ! ri)
               \<lparr>nodes := (if firstIs strNum (nodes (heap st ! ri)) (i_Saving sv)
                           then j_Saving sv # nodes (heap st ! ri)
                           else nodes (heap st ! ri) @ [j_Saving sv]),
                capacityUsed := capacityUsed (heap st ! ri) - demandEffect node_j\<rparr>],
            nodeToRoute := (nodeToRoute st)(j_Saving sv \<mapsto> ri)\<rparr>
      else st)"
  using assms by (simp add: processSaving_def Let_def setNodeToRoute_def)

lemma processSaving_j_assigned:
  assumes "find (\<lambda>node. id_NodeV node = i_Saving sv) nodeList = Some node_i"
      and "find (\<lambda>node. id_NodeV node = j_Saving sv) nodeList = Some node_j"
      and "nodeToRoute st (i_Saving sv) = None" and "nodeToRoute st (j_Saving sv) = Some rj"
  shows "processSaving strNum depot nodeList sv st =
     (if 0 \<le> capacityUsed (heap st ! rj) - demandEffect node_i then
        st\<lparr>heap := (heap st)[rj := (heap st ! rj)
               \<lparr>nodes := (if firstIs strNum (nodes (heap st ! rj)) (j_Saving sv)
                           then i_Saving sv # nodes (heap st ! rj)
                           else nodes (heap st ! rj) @ [i_Saving sv]),
                capacityUsed := capacityUsed (heap st ! rj) - demandEffect node_i\<rparr>],
            nodeToRoute := (nodeToRoute st)(i_Saving sv \<mapsto> rj)\<rparr>
      else st)"
  using assms by (simp add: processSaving_def Let_def setNodeToRoute_def)

lemma processSaving_both:
  assumes "find (\<lambda>node. id_NodeV node = i_Saving sv) nodeList = Some node_i"
      and "find (\<lambda>node. id_NodeV node = j_Saving sv) nodeList = Some node_j"
      and "nodeToRoute st (i_Saving sv) = Some ri" and "nodeToRoute st (j_Saving sv) = Some rj"
  shows "processSaving strNum depot nodeList sv st =
     (if ri \<noteq> rj \<and> 0 \<le> capacityUsed (heap st ! ri) - demandEffect node_j \<and>
         0 \<le> capacityUsed (heap st ! rj) - demandEffect node_i
      then
        (if lastIs strNum (nodes (heap st ! ri)) (i_Saving sv) \<and>
            firstIs strNum (nodes (heap st ! rj)) (j_Saving sv)
         then
           st\<lparr>heap := (heap st)[ri := (heap st ! ri)
                  \<lparr>nodes := nodes (heap st ! ri) @ nodes (heap st ! rj),
                   capacityUsed := capacityUsed (heap st ! ri) - demandEffect node_j\<rparr>],
               routes := splice1 (routes st) (indexOf (routes st) rj),
               nodeToRoute := (nodeToRoute st)(j_Saving sv \<mapsto> ri)\<rparr>
         else if firstIs strNum (nodes (heap st ! ri)) (i_Saving sv) \<and>
                 lastIs strNum (nodes (heap st ! rj)) (j_Saving sv)
         then
           st\<lparr>heap := (heap st)[ri := (heap st ! ri)
                  \<lparr>nodes := nodes (heap st ! rj) @ nodes (heap st ! ri),
                   capacityUsed := capacityUsed (heap st ! rj) - demandEffect node_i\<rparr>],
               routes := splice1 (routes st) (indexOf (routes st) rj),
               nodeToRoute := (nodeToRoute st)(i_Saving sv \<mapsto> ri)\<rparr>
         else st)
      else st)"
  using assms by (simp add: processSaving_def Let_def setNodeToRoute_def)

lemma processSaving_cases [case_names unchanged create attach merge]:
  obtains
    (unchanged) "processSaving strNum depot nodeList sv st = st"
  | (create) c where "0 \<le> c"
      "nodeToRoute st (i_Saving sv) = None" "nodeToRoute st (j_Saving sv) = None"
      "processSaving strNum depot nodeList sv st =
         st\<lparr>heap := heap st @ [\<lparr>nodes = [i_Saving sv, j_Saving sv], capacityUsed = c,
                                   vehicleCapacity = capacityOrDefault depot\<rparr>],
            routes := routes st @ [length (heap st)],
            nodeToRoute := (nodeToRoute st)(i_Saving sv \<mapsto> length (heap st),
                                           j_Saving sv \<mapsto> length (heap st))\<rparr>"
  | (attach) r k k' ns c where "0 \<le> c"
      "nodeToRoute st k' = Some r" "nodeToRoute st k = None"
      "k = i_Saving sv \<or> k = j_Saving sv"
      "ns = k # nodes (heap st ! r) \<or> ns = nodes (heap st ! r) @ [k]"
      "processSaving strNum depot nodeList sv st =
         st\<lparr>heap := (heap st)[r := (heap st ! r)\<lparr>nodes := ns, capacityUsed := c\<rparr>],
            nodeToRoute := (nodeToRoute st)(k \<mapsto> r)\<rparr>"
  | (merge) ri rj k ns c where "0 \<le> c"
      "nodeToRoute st (i_Saving sv) = Some ri" "nodeToRoute st (j_Saving sv) = Some rj" "ri \<noteq> rj"
      "k = i_Saving sv \<or> k = j_Saving sv"
      "ns = nodes (heap st ! ri) @ nodes (heap st ! rj) \<or>
       ns = nodes (heap st ! rj) @ nodes (heap st ! ri)"
      "processSaving strNum depot nodeList sv st =
         st\<lparr>heap := (heap st)[ri := (heap st ! ri)\<lparr>nodes := ns, capacityUsed := c\<rparr>],
            routes := splice1 (routes st) (indexOf (routes st) rj),
            nodeToRoute := (nodeToRoute st)(k \<mapsto> ri)\<rparr>"
proof (cases "find (\<lambda>node. id_NodeV node = i_Saving sv) nodeList")
  case None
  then show ?thesis using processSaving_unknown unchanged by blast
next
  case ni: (Some node_i)
  show ?thesis
  proof (cases "find (\<lambda>node. id_NodeV node = j_Saving sv) nodeList")
    case None
    then show ?thesis using processSaving_unknown unchanged by blast
  next
    case nj: (Some node_j)
    show ?thesis
    proof (cases "nodeToRoute st (i_Saving sv)")
      case ri: None
      show ?thesis
      proof (cases "nodeToRoute st (j_Saving sv)")
        case rj: None
        note eq = processSaving_neither[OF ni nj ri rj, of strNum depot]
        show ?thesis
        proof (cases "0 \<le> capacityOrDefault depot - demandEffect node_i - demandEffect node_j")
          case True
          show ?thesis by (rule create[OF True ri rj]) (simp only: eq True if_True)
        next
          case False
          show ?thesis by (rule unchanged) (simp only: eq False if_False)
        qed
      next
        case rj: (Some r)
        note eq = processSaving_j_assigned[OF ni nj ri rj, of strNum depot]
        show ?thesis
        proof (cases "0 \<le> capacityUsed (heap st ! r) - demandEffect node_i")
          case True
          show ?thesis
            by (rule attach[OF True rj ri, of "if firstIs strNum (nodes (heap st ! r)) (j_Saving sv)
                           then i_Saving sv # nodes (heap st ! r)
                           else nodes (heap st ! r) @ [i_Saving sv]"])
               (simp_all only: eq True if_True split: if_split, simp_all)
        next
          case False
          show ?thesis by (rule unchanged) (simp only: eq False if_False)
        qed
      qed
    next
      case ri: (Some r)
      show ?thesis
      proof (cases "nodeToRoute st (j_Saving sv)")
        case rj: None
        note eq = processSaving_i_assigned[OF ni nj ri rj, of strNum depot]
        show ?thesis
        proof (cases "0 \<le> capacityUsed (heap st ! r) - demandEffect node_j")
          case True
          show ?thesis
            by (rule attach[OF True ri rj, of "if firstIs strNum (nodes (heap st ! r)) (i_Saving sv)
                           then j_Saving sv # nodes (heap st ! r)
                           else nodes (heap st ! r) @ [j_Saving sv]"])
               (simp_all only: eq True if_True split: if_split, simp_all)
        next
          case False
          show ?thesis by (rule unchanged) (simp only: eq False if_False)
        qed
      next
        case rj: (Some r')
        note eq = processSaving_both[OF ni nj ri rj, of strNum depot]
        let ?g = "r \<noteq> r' \<and> 0 \<le> capacityUsed (heap st ! r) - demandEffect node_j \<and>
                  0 \<le> capacityUsed (heap st ! r') - demandEffect node_i"
        let ?o1 = "lastIs strNum (nodes (heap st ! r)) (i_Saving sv) \<and>
                   firstIs strNum (nodes (heap st ! r')) (j_Saving sv)"
        let ?o2 = "firstIs strNum (nodes (heap st ! r)) (i_Saving sv) \<and>
                   lastIs strNum (nodes (heap st ! r')) (j_Saving sv)"
        show ?thesis
        proof (cases ?g)
          case g: True
          then have ne: "r \<noteq> r'" and c1: "0 \<le> capacityUsed (heap st ! r) - demandEffect node_j"
            and c2: "0 \<le> capacityUsed (heap st ! r') - demandEffect node_i" by simp_all
          show ?thesis
          proof (cases ?o1)
            case o1: True
            show ?thesis
              by (rule merge[OF c1 ri rj ne, of "j_Saving sv" "nodes (heap st ! r) @ nodes (heap st ! r')"])
                 (simp_all only: eq g o1 if_True, simp_all)
          next
            case o1: False
            show ?thesis
            proof (cases ?o2)
              case o2: True
              show ?thesis
                by (rule merge[OF c2 ri rj ne, of "i_Saving sv" "nodes (heap st ! r') @ nodes (heap st ! r)"])
                   (simp_all only: eq g o1 o2 if_True if_False, simp_all)
            next
              case o2: False
              show ?thesis by (rule unchanged) (simp only: eq if_P[OF g] if_not_P[OF o1] if_not_P[OF o2])
            qed
          qed
        next
          case False
          show ?thesis by (rule unchanged) (simp only: eq False if_False)
        qed
      qed
    qed
  qed
qed

section \<open>Invariants of the store\<close>

lemma set_splice1: "set (splice1 xs k) \<subseteq> set xs"
  by (auto simp: splice1_def split: option.splits dest: in_set_takeD in_set_dropD in_set_butlastD)

lemma in_set_updE:
  assumes "y \<in> set (xs[i := x])"
  obtains "y \<in> set xs" | "i < length xs" "y = x"
proof (cases "i < length xs")
  case True
  moreover from assms have "y \<in> insert x (set xs)"
    using set_update_subset_insert[of xs i x] by blast
  ultimately show ?thesis using that by blast
next
  case False
  with assms have "y \<in> set xs" by (simp add: list_update_beyond)
  then show ?thesis using that by blast
qed

lemma heap_update_pred:
  assumes "\<forall>r \<in> set h. P r" and "a < length h \<Longrightarrow> P x"
  shows "\<forall>r \<in> set (h[a := x]). P r"
  using assms by (auto elim!: in_set_updE)

lemma fallbackNode_eq:
  "fallbackNode depot node st =
     (if nodeToRoute st (id_NodeV node) = None \<and>
         ((type node = ORDER \<and> demand node \<le> capacityOrDefault depot) \<or>
          (type node = VENDOR \<and> \<bar>demand node\<bar> \<le> capacityOrDefault depot))
      then
         st\<lparr>heap := heap st @
                [\<lparr>nodes = [id_NodeV node],
                  capacityUsed = (if type node = ORDER then capacityOrDefault depot - demand node
                                  else capacityOrDefault depot + demand node),
                  vehicleCapacity = capacityOrDefault depot\<rparr>],
            routes := routes st @ [length (heap st)],
            nodeToRoute := (nodeToRoute st)(id_NodeV node \<mapsto> length (heap st))\<rparr>
      else st)"
  by (cases "type node") (simp_all add: fallbackNode_def setNodeToRoute_def pushNewRoute_def)

lemma fallbackNode_cases [case_names unchanged create]:
  obtains
    (unchanged) "fallbackNode depot node st = st"
  | (create) "nodeToRoute st (id_NodeV node) = None"
      "(type node = ORDER \<and> demand node \<le> capacityOrDefault depot) \<or>
       (type node = VENDOR \<and> \<bar>demand node\<bar> \<le> capacityOrDefault depot)"
      "fallbackNode depot node st =
         st\<lparr>heap := heap st @
                [\<lparr>nodes = [id_NodeV node],
                  capacityUsed = (if type node = ORDER then capacityOrDefault depot - demand node
                                  else capacityOrDefault depot + demand node),
                  vehicleCapacity = capacityOrDefault depot\<rparr>],
            routes := routes st @ [length (heap st)],
            nodeToRoute := (nodeToRoute st)(id_NodeV node \<mapsto> length (heap st))\<rparr>"
proof (cases "nodeToRoute st (id_NodeV node) = None \<and>
         ((type node = ORDER \<and> demand node \<le> capacityOrDefault depot) \<or>
          (type node = VENDOR \<and> \<bar>demand node\<bar> \<le> capacityOrDefault depot))")
  case True
  show ?thesis
    by (rule create) (use True in \<open>simp_all only: fallbackNode_eq[of depot node st] if_True, simp_all\<close>)
next
  case False
  show ?thesis
    by (rule unchanged) (simp only: fallbackNode_eq[of depot node st] if_not_P[OF False])
qed

lemma processSaving_wf:
  assumes "wfStore st"
  shows "wfStore (processSaving strNum depot nodeList sv st)"
proof (cases rule: processSaving_cases[of strNum depot nodeList sv st])
  case unchanged
  then show ?thesis using assms by simp
next
  case (create c)
  then show ?thesis using assms by (auto simp: wfStore_def less_Suc_eq)
next
  case (attach r k k' ns c)
  then show ?thesis using assms by (auto simp: wfStore_def)
next
  case (merge ri rj k ns c)
  then show ?thesis using assms set_splice1[of "routes st" "indexOf (routes st) rj"]
    by (auto simp: wfStore_def)
qed

lemma fallbackNode_wf:
  assumes "wfStore st"
  shows "wfStore (fallbackNode depot node st)"
  by (cases rule: fallbackNode_cases[of depot node st]) (use assms in \<open>auto simp: wfStore_def less_Suc_eq\<close>)

lemma savingsLoop_wf: "wfStore st \<Longrightarrow> wfStore (savingsLoop strNum depot nodeList ss st)"
  unfolding savingsLoop_def by (induction ss arbitrary: st) (simp_all add: processSaving_wf)

lemma fallbackLoop_wf: "wfStore st \<Longrightarrow> wfStore (fallbackLoop depot ns st)"
  unfolding fallbackLoop_def by (induction ns arbitrary: st) (simp_all add: fallbackNode_wf)

lemma wfStore_empty: "wfStore emptyStore"
  by (simp add: wfStore_def emptyStore_def)

lemma routesOf_subset_heap: "wfStore st \<Longrightarrow> set (routesOf st) \<subseteq> set (heap st)"
  by (auto simp: wfStore_def routesOf_def)

subsection \<open>capacityUsed stays non-negative\<close>





subsection \<open>The identities in the Routes\<close>

text \<open>Every identity in a Route has an entry in \<open>nodeToRoute\<close>.\<close>

lemma processSaving_registered:
  assumes inv: "\<forall>r \<in> set (heap st). set (nodes r) \<subseteq> dom (nodeToRoute st)"
      and wf: "wfStore st"
  shows "\<forall>r \<in> set (heap (processSaving strNum depot nodeList sv st)).
           set (nodes r) \<subseteq> dom (nodeToRoute (processSaving strNum depot nodeList sv st))"
proof (cases rule: processSaving_cases[of strNum depot nodeList sv st])
  case unchanged
  then show ?thesis using inv by simp
next
  case (create c)
  then show ?thesis using inv by auto
next
  case (attach r k k' ns c)
  let ?m = "(nodeToRoute st)(k \<mapsto> r)"
  have inv': "\<forall>q \<in> set (heap st). set (nodes q) \<subseteq> dom ?m" using inv by auto
  have "\<forall>q \<in> set ((heap st)[r := (heap st ! r)\<lparr>nodes := ns, capacityUsed := c\<rparr>]). set (nodes q) \<subseteq> dom ?m"
  proof (rule heap_update_pred[OF inv'])
    assume "r < length (heap st)"
    then have "set (nodes (heap st ! r)) \<subseteq> dom ?m" using inv' by simp
    then show "set (nodes ((heap st ! r)\<lparr>nodes := ns, capacityUsed := c\<rparr>)) \<subseteq> dom ?m"
      using attach(5) by auto
  qed
  then show ?thesis by (simp add: attach(6))
next
  case (merge ri rj k ns c)
  let ?m = "(nodeToRoute st)(k \<mapsto> ri)"
  have inv': "\<forall>q \<in> set (heap st). set (nodes q) \<subseteq> dom ?m" using inv by auto
  have "\<forall>q \<in> set ((heap st)[ri := (heap st ! ri)\<lparr>nodes := ns, capacityUsed := c\<rparr>]). set (nodes q) \<subseteq> dom ?m"
  proof (rule heap_update_pred[OF inv'])
    assume "ri < length (heap st)"
    then have "set (nodes (heap st ! ri)) \<subseteq> dom ?m" using inv' by simp
    moreover have "rj < length (heap st)" using wf merge(3) by (simp add: wfStore_def)
    then have "set (nodes (heap st ! rj)) \<subseteq> dom ?m" using inv' by simp
    ultimately show "set (nodes ((heap st ! ri)\<lparr>nodes := ns, capacityUsed := c\<rparr>)) \<subseteq> dom ?m"
      using merge(6) by auto
  qed
  then show ?thesis by (simp add: merge(7))
qed

lemma savingsLoop_registered:
  assumes "\<forall>r \<in> set (heap st). set (nodes r) \<subseteq> dom (nodeToRoute st)" and "wfStore st"
  shows "\<forall>r \<in> set (heap (savingsLoop strNum depot nodeList ss st)).
           set (nodes r) \<subseteq> dom (nodeToRoute (savingsLoop strNum depot nodeList ss st))"
  using assms unfolding savingsLoop_def
proof (induction ss arbitrary: st)
  case Nil
  then show ?case by simp
next
  case (Cons s ss)
  show ?case
    using Cons.IH[OF processSaving_registered[OF Cons.prems] processSaving_wf[OF Cons.prems(2)]]
    by simp
qed

section \<open>The fallback loop\<close>







lemma fallbackLoop_heap:
  "set (heap (fallbackLoop depot ns st)) \<subseteq>
     set (heap st) \<union> {fallbackRoute depot n | n. n \<in> set ns \<and> fits depot n}"
  unfolding fallbackLoop_def
proof (induction ns arbitrary: st)
  case Nil
  then show ?case by simp
next
  case (Cons m ms)
  have "set (heap (fallbackNode depot m st)) \<subseteq>
          set (heap st) \<union> {fallbackRoute depot n | n. n = m \<and> fits depot n}"
    by (cases rule: fallbackNode_cases[of depot m st]) (auto simp: fits_def fallbackRoute_def)
  with Cons.IH[of "fallbackNode depot m st"] show ?case by auto
qed

lemma afterSavings_wf: "wfStore (afterSavings strNum depot nodeList)"
  unfolding afterSavings_def by (intro savingsLoop_wf wfStore_empty)

lemma afterSavings_registered:
  "\<forall>r \<in> set (heap (afterSavings strNum depot nodeList)).
     set (nodes r) \<subseteq> dom (nodeToRoute (afterSavings strNum depot nodeList))"
  unfolding afterSavings_def
  by (intro savingsLoop_registered wfStore_empty) (simp add: emptyStore_def)

lemma clarkWright_subset:
  "set (clarkWright strNum depot nodeList) \<subseteq>
     set (heap (afterSavings strNum depot nodeList)) \<union>
     {fallbackRoute depot n | n. n \<in> set nodeList \<and> fits depot n}"
proof -
  have "set (clarkWright strNum depot nodeList) \<subseteq>
          set (heap (fallbackLoop depot nodeList (afterSavings strNum depot nodeList)))"
    unfolding clarkWright_def
    by (intro routesOf_subset_heap fallbackLoop_wf afterSavings_wf)
  with fallbackLoop_heap[of depot nodeList "afterSavings strNum depot nodeList"] show ?thesis by blast
qed

text \<open>An unassigned node whose identity is unique: the routes that mention it.\<close>

lemma unassigned_routes:
  assumes d: "distinct (map id_NodeV nodeList)" and n: "n \<in> set nodeList"
      and un: "nodeToRoute (afterSavings strNum depot nodeList) (id_NodeV n) = None"
      and r: "r \<in> set (clarkWright strNum depot nodeList)" and m: "id_NodeV n \<in> set (nodes r)"
  shows "fits depot n \<and> r = fallbackRoute depot n"
proof -
  from r clarkWright_subset[of strNum depot nodeList]
  consider "r \<in> set (heap (afterSavings strNum depot nodeList))"
    | n' where "n' \<in> set nodeList" "fits depot n'" "r = fallbackRoute depot n'" by blast
  then show ?thesis
  proof cases
    case 1
    with afterSavings_registered[of strNum depot nodeList] m
    have "id_NodeV n \<in> dom (nodeToRoute (afterSavings strNum depot nodeList))" by blast
    with un show ?thesis by auto
  next
    case 2
    with m have "id_NodeV n' = id_NodeV n" by (simp add: fallbackRoute_def)
    with d n 2(1) have "n' = n" by (meson distinct_map inj_onD)
    with 2 show ?thesis by simp
  qed
qed

section \<open>Nearest depot and clusters\<close>

lemma getNearestDepot_loop_Some:
  "fst (getNearestDepot_loop distNum ds loc (Some k, x)) \<noteq> None"
  by (induction ds arbitrary: k x) (simp_all add: Let_def)

lemma getNearestDepot_Nil: "getNearestDepot distNum [] loc = None"
  by (simp add: getNearestDepot_def)

text \<open>
  The search returns \<^verbatim>\<open>null\<close> exactly when no depot is at a distance below
  \<^verbatim>\<open>Infinity\<close>: the depot list is empty, or every distance is NaN or
  \<^verbatim>\<open>Infinity\<close>.
\<close>

lemma getNearestDepot_None_iff:
  "getNearestDepot distNum depotList loc = None \<longleftrightarrow>
     (\<forall>d \<in> set depotList. \<not> numberLess (distNum d loc) PlusInfinity)"
  unfolding getNearestDepot_def
proof (induction depotList)
  case Nil
  show ?case by simp
next
  case (Cons d ds)
  show ?case
  proof (cases "numberLess (distNum d loc) PlusInfinity")
    case True
    then show ?thesis by (simp add: Let_def getNearestDepot_loop_Some)
  next
    case False
    then show ?thesis using Cons.IH by (simp add: Let_def)
  qed
qed

text \<open>
  When every distance is a finite number \<open>f d\<close>, the search returns the first
  depot at the least distance.
\<close>

lemma getNearestDepot_loop_first:
  assumes "\<forall>d \<in> set (c # ds). distNum d loc = Finite (f d)"
  shows "\<exists>pre r post.
     c # ds = pre @ r # post \<and>
     (\<forall>d \<in> set pre. f r < f d) \<and>
     (\<forall>d \<in> set post. f r \<le> f d) \<and>
     getNearestDepot_loop distNum ds loc (Some (IdNumber (id_Vehicle c)), Finite (f c)) =
       (Some (IdNumber (id_Vehicle r)), Finite (f r))"
  using assms
proof (induction ds arbitrary: c)
  case Nil
  show ?case by (rule exI[of _ "[]"], rule exI[of _ c], rule exI[of _ "[]"]) simp
next
  case (Cons d ds)
  from Cons.prems have fd: "distNum d loc = Finite (f d)" by simp
  show ?case
  proof (cases "f d < f c")
    case True
    from Cons.prems have "\<forall>x \<in> set (d # ds). distNum x loc = Finite (f x)" by simp
    from Cons.IH[OF this] obtain pre r post where
      s: "d # ds = pre @ r # post" and
      p: "\<forall>x \<in> set pre. f r < f x" and
      q: "\<forall>x \<in> set post. f r \<le> f x" and
      l: "getNearestDepot_loop distNum ds loc (Some (IdNumber (id_Vehicle d)), Finite (f d)) =
           (Some (IdNumber (id_Vehicle r)), Finite (f r))" by blast
    have "d \<in> set (pre @ r # post)" using s by (metis list.set_intros(1))
    then have "f r \<le> f d" using p q by auto
    with True have "f r < f c" by simp
    with p have p': "\<forall>x \<in> set (c # pre). f r < f x" by simp
    have "c # d # ds = (c # pre) @ r # post" using s by simp
    moreover have "getNearestDepot_loop distNum (d # ds) loc
        (Some (IdNumber (id_Vehicle c)), Finite (f c)) =
        (Some (IdNumber (id_Vehicle r)), Finite (f r))"
      using True l fd by (simp add: Let_def)
    ultimately show ?thesis using p' q by blast
  next
    case False
    from Cons.prems have "\<forall>x \<in> set (c # ds). distNum x loc = Finite (f x)" by simp
    from Cons.IH[OF this] obtain pre r post where
      s: "c # ds = pre @ r # post" and
      p: "\<forall>x \<in> set pre. f r < f x" and
      q: "\<forall>x \<in> set post. f r \<le> f x" and
      l: "getNearestDepot_loop distNum ds loc (Some (IdNumber (id_Vehicle c)), Finite (f c)) =
           (Some (IdNumber (id_Vehicle r)), Finite (f r))" by blast
    show ?thesis
    proof (cases pre)
      case Nil
      with s have rc: "r = c" and post: "post = ds" by simp_all
      have "c # d # ds = [] @ r # (d # ds)" using rc by simp
      moreover have "\<forall>x \<in> set (d # ds). f r \<le> f x"
        using q False rc post by auto
      moreover have "getNearestDepot_loop distNum (d # ds) loc
          (Some (IdNumber (id_Vehicle c)), Finite (f c)) =
          (Some (IdNumber (id_Vehicle r)), Finite (f r))"
        using False l fd by (simp add: Let_def)
      ultimately show ?thesis by (metis empty_iff empty_set)
    next
      case (Cons c' pre')
      with s have c': "c' = c" and ds: "ds = pre' @ r # post" by simp_all
      from p Cons c' have "f r < f c" by simp
      with False have "f r < f d" by simp
      with p Cons c' have p': "\<forall>x \<in> set (c # d # pre'). f r < f x" by simp
      have "c # d # ds = (c # d # pre') @ r # post" using ds by simp
      moreover have "getNearestDepot_loop distNum (d # ds) loc
          (Some (IdNumber (id_Vehicle c)), Finite (f c)) =
          (Some (IdNumber (id_Vehicle r)), Finite (f r))"
        using False l fd by (simp add: Let_def)
      ultimately show ?thesis using p' q by blast
    qed
  qed
qed

lemma getNearestDepot_first:
  assumes "depotList \<noteq> []" and "\<forall>d \<in> set depotList. distNum d loc = Finite (f d)"
  shows "\<exists>pre r post.
     depotList = pre @ r # post \<and>
     (\<forall>d \<in> set pre. f r < f d) \<and>
     (\<forall>d \<in> set post. f r \<le> f d) \<and>
     getNearestDepot distNum depotList loc = Some (IdNumber (id_Vehicle r))"
proof -
  from assms(1) obtain c ds where cd: "depotList = c # ds" by (cases depotList) auto
  from assms(2) cd have fin: "\<forall>d \<in> set (c # ds). distNum d loc = Finite (f d)" by simp
  then have "distNum c loc = Finite (f c)" by simp
  then have "getNearestDepot distNum (c # ds) loc =
      fst (getNearestDepot_loop distNum ds loc (Some (IdNumber (id_Vehicle c)), Finite (f c)))"
    by (simp add: getNearestDepot_def Let_def)
  with getNearestDepot_loop_first[where distNum = distNum and loc = loc and f = f, OF fin] show ?thesis
    unfolding cd by (metis fst_conv)
qed

lemma addVendorCluster_eq:
  "addVendorCluster distNum depotList orderList v m =
     (case getNearestDepot distNum depotList v of
        None \<Rightarrow> m
      | Some k \<Rightarrow> m(k \<mapsto> (case m k of None \<Rightarrow> [] | Some cs \<Rightarrow> cs) @ [clusterOf orderList v]))"
  by (auto simp: addVendorCluster_def Let_def clusterOf_def isAssociatedWithVendor_def
           split: option.splits)

lemma fold_addVendorCluster:
  "fold (addVendorCluster distNum depotList orderList) vs m k =
     (if filter (\<lambda>v. getNearestDepot distNum depotList v = Some k) vs = [] then m k
      else Some ((case m k of None \<Rightarrow> [] | Some cs \<Rightarrow> cs) @
                 map (clusterOf orderList) (filter (\<lambda>v. getNearestDepot distNum depotList v = Some k) vs)))"
proof (induction vs arbitrary: m)
  case Nil
  show ?case by simp
next
  case (Cons v vs)
  have step: "fold (addVendorCluster distNum depotList orderList) (v # vs) m k =
      fold (addVendorCluster distNum depotList orderList) vs (addVendorCluster distNum depotList orderList v m) k"
    by simp
  show ?case
  proof (cases "getNearestDepot distNum depotList v")
    case None
    then show ?thesis unfolding step Cons.IH addVendorCluster_eq[of distNum depotList orderList v m] by simp
  next
    case (Some k')
    show ?thesis
    proof (cases "k' = k")
      case True
      with Some show ?thesis
        unfolding step Cons.IH addVendorCluster_eq[of distNum depotList orderList v m] by simp
    next
      case False
      with Some show ?thesis
        unfolding step Cons.IH addVendorCluster_eq[of distNum depotList orderList v m] by simp
    qed
  qed
qed

lemma formDepotClusters_eq:
  "formDepotClusters distNum depotList vendorList orderList k =
     (if filter (\<lambda>v. getNearestDepot distNum depotList v = Some k) vendorList = [] then None
      else Some (map (clusterOf orderList)
                   (filter (\<lambda>v. getNearestDepot distNum depotList v = Some k) vendorList)))"
  by (simp add: formDepotClusters_def fold_addVendorCluster)

subsection \<open>Routing within the clusters\<close>

lemma fold_append_routes:
  "fold (\<lambda>cluster allRoutesForDepot. allRoutesForDepot @ f cluster) clusters acc =
     acc @ concat (map f clusters)"
  by (induction clusters arbitrary: acc) simp_all

lemma fold_routeDepot:
  assumes "fold (routeDepot strNum depotClusters) depotList m k = Some rs"
  shows "m k = Some rs \<or>
         (\<exists>depot \<in> set depotList. \<exists>clusters.
            k = IdNumber (id_Vehicle depot) \<and> depotClusters k = Some clusters \<and>
            rs = concat (map (\<lambda>c. clarkWright strNum depot (vendor c # orders c)) clusters))"
  using assms
proof (induction depotList arbitrary: m)
  case Nil
  then show ?case by simp
next
  case (Cons d ds)
  from Cons.prems have "fold (routeDepot strNum depotClusters) ds (routeDepot strNum depotClusters d m) k = Some rs"
    by simp
  from Cons.IH[OF this] show ?case
  proof
    assume a: "routeDepot strNum depotClusters d m k = Some rs"
    show ?thesis
    proof (cases "depotClusters (IdNumber (id_Vehicle d))")
      case None
      with a show ?thesis by (simp add: routeDepot_def)
    next
      case (Some clusters)
      show ?thesis
      proof (cases "k = IdNumber (id_Vehicle d)")
        case True
        with a Some have "rs = concat (map (\<lambda>c. clarkWright strNum d (vendor c # orders c)) clusters)"
          by (simp add: routeDepot_def fold_append_routes)
        with True Some show ?thesis by auto
      next
        case False
        with a Some show ?thesis by (simp add: routeDepot_def)
      qed
    qed
  next
    assume "\<exists>depot \<in> set ds. \<exists>clusters.
            k = IdNumber (id_Vehicle depot) \<and> depotClusters k = Some clusters \<and>
            rs = concat (map (\<lambda>c. clarkWright strNum depot (vendor c # orders c)) clusters)"
    then show ?thesis by auto
  qed
qed

section \<open>The merge on concrete inputs\<close>

text \<open>
  The identities of the samples are strings, which the loose equality compares
  as they are: the results below hold for every conversion \<open>strNum\<close>.
\<close>

subsection \<open>Two routes of load 6 each, merged into one of load 12\<close>

lemma overload_savings:
  "sortSavings (calculateSavings (depotAt 1 0 None)
      [orderAt ''A'' 90 3, orderAt ''B'' 90 3, orderAt ''C'' (- 90) 3, orderAt ''D'' (- 90) 3]) =
   [savingRec ''A'' ''B'' (6371 * pi), savingRec ''C'' ''D'' (6371 * pi),
    savingRec ''A'' ''C'' 0, savingRec ''A'' ''D'' 0,
    savingRec ''B'' ''C'' 0, savingRec ''B'' ''D'' 0]"
proof -
  have "calculateSavings (depotAt 1 0 None)
      [orderAt ''A'' 90 3, orderAt ''B'' 90 3, orderAt ''C'' (- 90) 3, orderAt ''D'' (- 90) 3] =
    [savingRec ''A'' ''B'' (6371 * pi), savingRec ''A'' ''C'' 0, savingRec ''A'' ''D'' 0,
     savingRec ''B'' ''C'' 0, savingRec ''B'' ''D'' 0, savingRec ''C'' ''D'' (6371 * pi)]"
    by (simp add: savings_eval sample_simps savingRec_def)
  then show ?thesis by (simp add: sortSavings_def sample_simps)
qed

text \<open>
  C1 (the code departs from the claim). The claim: the load of every returned
  Route is at most the depot's capacity. On a depot of the default capacity 10
  and four orders of demand 3, A and B to the east and C and D to the west of
  the depot, the savings rank (A,B) and (C,D) first; the saving (A,D) then
  concatenates the two routes, because its test subtracts the demand of one node
  only. The single returned Route has load 12 and capacityUsed 1.
\<close>

theorem clarkWright_merge_exceeds_capacity:
  "clarkWright strNum (depotAt 1 0 None)
     [orderAt ''A'' 90 3, orderAt ''B'' 90 3, orderAt ''C'' (- 90) 3, orderAt ''D'' (- 90) 3] =
   [\<lparr>nodes = [IdString ''C'', IdString ''D'', IdString ''A'', IdString ''B''],
     capacityUsed = 1, vehicleCapacity = 10\<rparr>] \<and>
   routeLoad
     [orderAt ''A'' 90 3, orderAt ''B'' 90 3, orderAt ''C'' (- 90) 3, orderAt ''D'' (- 90) 3]
     \<lparr>nodes = [IdString ''C'', IdString ''D'', IdString ''A'', IdString ''B''],
      capacityUsed = 1, vehicleCapacity = 10\<rparr> = 12 \<and>
   capacityOrDefault (depotAt 1 0 None) = 10"
proof (intro conjI)
  show "clarkWright strNum (depotAt 1 0 None)
     [orderAt ''A'' 90 3, orderAt ''B'' 90 3, orderAt ''C'' (- 90) 3, orderAt ''D'' (- 90) 3] =
   [\<lparr>nodes = [IdString ''C'', IdString ''D'', IdString ''A'', IdString ''B''],
     capacityUsed = 1, vehicleCapacity = 10\<rparr>]"
    unfolding clarkWright_def afterSavings_def overload_savings
    by (simp add: merge_eval sample_simps)
  show "routeLoad
     [orderAt ''A'' 90 3, orderAt ''B'' 90 3, orderAt ''C'' (- 90) 3, orderAt ''D'' (- 90) 3]
     \<lparr>nodes = [IdString ''C'', IdString ''D'', IdString ''A'', IdString ''B''],
      capacityUsed = 1, vehicleCapacity = 10\<rparr> = 12"
    by (simp add: routeLoad_def demandEffect_def sample_simps)
  show "capacityOrDefault (depotAt 1 0 None) = 10"
    by (simp add: capacityOrDefault_def VEHICLE_INITIAL_CAPACITY_def sample_simps)
qed

subsection \<open>A merge with a Route that was absorbed before\<close>

lemma duplicate_savings:
  "sortSavings (calculateSavings (depotAt 1 0 None)
      [orderAt ''A'' 90 3, orderAt ''B'' 90 3, orderAt ''E'' 90 5, orderAt ''F'' 90 5,
       orderAt ''C'' (- 90) 1, orderAt ''D'' (- 90) 1]) =
   [savingRec ''A'' ''B'' (6371 * pi), savingRec ''A'' ''E'' (6371 * pi),
    savingRec ''A'' ''F'' (6371 * pi), savingRec ''B'' ''E'' (6371 * pi),
    savingRec ''B'' ''F'' (6371 * pi), savingRec ''E'' ''F'' (6371 * pi),
    savingRec ''C'' ''D'' (6371 * pi),
    savingRec ''A'' ''C'' 0, savingRec ''A'' ''D'' 0, savingRec ''B'' ''C'' 0,
    savingRec ''B'' ''D'' 0, savingRec ''E'' ''C'' 0, savingRec ''E'' ''D'' 0,
    savingRec ''F'' ''C'' 0, savingRec ''F'' ''D'' 0]"
proof -
  have "calculateSavings (depotAt 1 0 None)
      [orderAt ''A'' 90 3, orderAt ''B'' 90 3, orderAt ''E'' 90 5, orderAt ''F'' 90 5,
       orderAt ''C'' (- 90) 1, orderAt ''D'' (- 90) 1] =
    [savingRec ''A'' ''B'' (6371 * pi), savingRec ''A'' ''E'' (6371 * pi),
     savingRec ''A'' ''F'' (6371 * pi), savingRec ''A'' ''C'' 0, savingRec ''A'' ''D'' 0,
     savingRec ''B'' ''E'' (6371 * pi), savingRec ''B'' ''F'' (6371 * pi),
     savingRec ''B'' ''C'' 0, savingRec ''B'' ''D'' 0,
     savingRec ''E'' ''F'' (6371 * pi), savingRec ''E'' ''C'' 0, savingRec ''E'' ''D'' 0,
     savingRec ''F'' ''C'' 0, savingRec ''F'' ''D'' 0, savingRec ''C'' ''D'' (6371 * pi)]"
    by (simp add: savings_eval sample_simps savingRec_def)
  then show ?thesis by (simp add: sortSavings_def sample_simps)
qed

text \<open>
  C2 (the code departs from the claim). The claim: every identity is in at most
  one returned Route, at most once; a concatenation re-registers every node of
  the absorbed Route and removes the absorbed Route. Six orders under the
  capacity 10: A and B (demand 3) and E and F (demand 5) to the east, C and D
  (demand 1) to the west. The savings build the Routes [A,B], [E,F] and [C,D], at
  the addresses 0, 1 and 2. The saving (A,D), the ninth of the ranking,
  concatenates [C,D] in front of [A,B] and removes the Route [C,D] from the
  collection, but C and D stay registered under the removed object (the first
  conjunct: the store after nine savings). The saving (B,C) then finds two
  different objects, appends the nodes of the removed one once more, and its
  \<^verbatim>\<open>splice(indexOf(...), 1)\<close>, with the index \<open>-1\<close>, removes the last Route
  of the collection, which is [E,F]. The result is one Route that holds C and D
  twice; E and F are in no returned Route.
\<close>

theorem clarkWright_merge_duplicates_nodes:
  "(let st = savingsLoop strNum (depotAt 1 0 None)
        [orderAt ''A'' 90 3, orderAt ''B'' 90 3, orderAt ''E'' 90 5, orderAt ''F'' 90 5,
       orderAt ''C'' (- 90) 1, orderAt ''D'' (- 90) 1]
        (take 9 (sortSavings (calculateSavings (depotAt 1 0 None)
           [orderAt ''A'' 90 3, orderAt ''B'' 90 3, orderAt ''E'' 90 5, orderAt ''F'' 90 5,
       orderAt ''C'' (- 90) 1, orderAt ''D'' (- 90) 1])))
        emptyStore
    in routes st = [0, 1] \<and>
       nodes (heap st ! 0) = [IdString ''C'', IdString ''D'', IdString ''A'', IdString ''B''] \<and>
       nodes (heap st ! 1) = [IdString ''E'', IdString ''F''] \<and>
       nodeToRoute st (IdString ''C'') = Some 2 \<and> nodeToRoute st (IdString ''D'') = Some 2) \<and>
   clarkWright strNum (depotAt 1 0 None)
     [orderAt ''A'' 90 3, orderAt ''B'' 90 3, orderAt ''E'' 90 5, orderAt ''F'' 90 5,
       orderAt ''C'' (- 90) 1, orderAt ''D'' (- 90) 1] =
   [\<lparr>nodes = [IdString ''C'', IdString ''D'', IdString ''A'', IdString ''B'',
              IdString ''C'', IdString ''D''],
     capacityUsed = 4, vehicleCapacity = 10\<rparr>]"
proof (intro conjI)
  show "clarkWright strNum (depotAt 1 0 None)
     [orderAt ''A'' 90 3, orderAt ''B'' 90 3, orderAt ''E'' 90 5, orderAt ''F'' 90 5,
       orderAt ''C'' (- 90) 1, orderAt ''D'' (- 90) 1] =
   [\<lparr>nodes = [IdString ''C'', IdString ''D'', IdString ''A'', IdString ''B'',
              IdString ''C'', IdString ''D''],
     capacityUsed = 4, vehicleCapacity = 10\<rparr>]"
    unfolding clarkWright_def afterSavings_def duplicate_savings
    by (simp add: merge_eval sample_simps)
  show "let st = savingsLoop strNum (depotAt 1 0 None)
        [orderAt ''A'' 90 3, orderAt ''B'' 90 3, orderAt ''E'' 90 5, orderAt ''F'' 90 5,
       orderAt ''C'' (- 90) 1, orderAt ''D'' (- 90) 1]
        (take 9 (sortSavings (calculateSavings (depotAt 1 0 None)
           [orderAt ''A'' 90 3, orderAt ''B'' 90 3, orderAt ''E'' 90 5, orderAt ''F'' 90 5,
       orderAt ''C'' (- 90) 1, orderAt ''D'' (- 90) 1])))
        emptyStore
    in routes st = [0, 1] \<and>
       nodes (heap st ! 0) = [IdString ''C'', IdString ''D'', IdString ''A'', IdString ''B''] \<and>
       nodes (heap st ! 1) = [IdString ''E'', IdString ''F''] \<and>
       nodeToRoute st (IdString ''C'') = Some 2 \<and> nodeToRoute st (IdString ''D'') = Some 2"
    unfolding duplicate_savings
    by (simp add: merge_eval sample_simps)
qed

subsection \<open>An attachment next to an interior node\<close>

lemma interior_savings:
  "sortSavings (calculateSavings (depotAt 1 0 None)
      [orderAt ''A'' 0 1, orderAt ''B'' 0 1, orderAt ''C'' 0 1, orderAt ''D'' 0 1]) =
   [savingRec ''A'' ''B'' 0, savingRec ''A'' ''C'' 0, savingRec ''A'' ''D'' 0,
    savingRec ''B'' ''C'' 0, savingRec ''B'' ''D'' 0, savingRec ''C'' ''D'' 0]"
proof -
  have "calculateSavings (depotAt 1 0 None)
      [orderAt ''A'' 0 1, orderAt ''B'' 0 1, orderAt ''C'' 0 1, orderAt ''D'' 0 1] =
    [savingRec ''A'' ''B'' 0, savingRec ''A'' ''C'' 0, savingRec ''A'' ''D'' 0,
     savingRec ''B'' ''C'' 0, savingRec ''B'' ''D'' 0, savingRec ''C'' ''D'' 0]"
    by (simp add: savings_eval sample_simps savingRec_def)
  then show ?thesis by (simp add: sortSavings_def sample_simps)
qed

text \<open>
  C3 (the code departs from the claim). The claim: in the one-assigned case j is
  attached only when i is the first or the last element of its Route, and the
  saving is skipped when i is neither. On four orders at the depot's position
  (all savings 0, so the ranking is the order of production) the first two
  savings build the Route [C,A,B]; the third saving is (A,D), A is the middle
  element, and the code's \<^verbatim>\<open>else\<close> branch appends D all the same.
\<close>

theorem clarkWright_attaches_at_interior_node:
  "routesOf (savingsLoop strNum (depotAt 1 0 None)
      [orderAt ''A'' 0 1, orderAt ''B'' 0 1, orderAt ''C'' 0 1, orderAt ''D'' 0 1]
      [savingRec ''A'' ''B'' 0, savingRec ''A'' ''C'' 0] emptyStore) =
   [\<lparr>nodes = [IdString ''C'', IdString ''A'', IdString ''B''],
     capacityUsed = 7, vehicleCapacity = 10\<rparr>] \<and>
   routesOf (savingsLoop strNum (depotAt 1 0 None)
      [orderAt ''A'' 0 1, orderAt ''B'' 0 1, orderAt ''C'' 0 1, orderAt ''D'' 0 1]
      [savingRec ''A'' ''B'' 0, savingRec ''A'' ''C'' 0, savingRec ''A'' ''D'' 0] emptyStore) =
   [\<lparr>nodes = [IdString ''C'', IdString ''A'', IdString ''B'', IdString ''D''],
     capacityUsed = 6, vehicleCapacity = 10\<rparr>] \<and>
   take 3 (sortSavings (calculateSavings (depotAt 1 0 None)
      [orderAt ''A'' 0 1, orderAt ''B'' 0 1, orderAt ''C'' 0 1, orderAt ''D'' 0 1])) =
   [savingRec ''A'' ''B'' 0, savingRec ''A'' ''C'' 0, savingRec ''A'' ''D'' 0] \<and>
   clarkWright strNum (depotAt 1 0 None)
     [orderAt ''A'' 0 1, orderAt ''B'' 0 1, orderAt ''C'' 0 1, orderAt ''D'' 0 1] =
   [\<lparr>nodes = [IdString ''C'', IdString ''A'', IdString ''B'', IdString ''D''],
     capacityUsed = 6, vehicleCapacity = 10\<rparr>]"
proof (intro conjI)
  show "routesOf (savingsLoop strNum (depotAt 1 0 None)
      [orderAt ''A'' 0 1, orderAt ''B'' 0 1, orderAt ''C'' 0 1, orderAt ''D'' 0 1]
      [savingRec ''A'' ''B'' 0, savingRec ''A'' ''C'' 0] emptyStore) =
   [\<lparr>nodes = [IdString ''C'', IdString ''A'', IdString ''B''],
     capacityUsed = 7, vehicleCapacity = 10\<rparr>]"
    by (simp add: merge_eval sample_simps)
  show "routesOf (savingsLoop strNum (depotAt 1 0 None)
      [orderAt ''A'' 0 1, orderAt ''B'' 0 1, orderAt ''C'' 0 1, orderAt ''D'' 0 1]
      [savingRec ''A'' ''B'' 0, savingRec ''A'' ''C'' 0, savingRec ''A'' ''D'' 0] emptyStore) =
   [\<lparr>nodes = [IdString ''C'', IdString ''A'', IdString ''B'', IdString ''D''],
     capacityUsed = 6, vehicleCapacity = 10\<rparr>]"
    by (simp add: merge_eval sample_simps)
  show "take 3 (sortSavings (calculateSavings (depotAt 1 0 None)
      [orderAt ''A'' 0 1, orderAt ''B'' 0 1, orderAt ''C'' 0 1, orderAt ''D'' 0 1])) =
   [savingRec ''A'' ''B'' 0, savingRec ''A'' ''C'' 0, savingRec ''A'' ''D'' 0]"
    unfolding interior_savings by simp
  show "clarkWright strNum (depotAt 1 0 None)
     [orderAt ''A'' 0 1, orderAt ''B'' 0 1, orderAt ''C'' 0 1, orderAt ''D'' 0 1] =
   [\<lparr>nodes = [IdString ''C'', IdString ''A'', IdString ''B'', IdString ''D''],
     capacityUsed = 6, vehicleCapacity = 10\<rparr>]"
    unfolding clarkWright_def afterSavings_def interior_savings
    by (simp add: merge_eval sample_simps)
qed

section \<open>The savings list is the list of the pairs of orders\<close>

text \<open>
  C6. \<^verbatim>\<open>calculateSavings\<close> returns one Saving record for each pair of positions
  \<open>a < b\<close> of the node list at which both nodes are of type ORDER, and nothing
  else: the list \<open>orderPairs\<close> has no pair twice and holds exactly those pairs, so
  every unordered pair of distinct orders has one record and no record has a
  vendor as an endpoint. The value of the record is
  \<open>distance depot i + distance depot j - distance i j\<close>. The records come in the
  lexicographic order of the positions, which depends on the node list only.
\<close>

theorem calculateSavings_order_pairs:
  "calculateSavings depot nodeList =
     map (\<lambda>(a, b).
            \<lparr>i_Saving = id_NodeV (nodeList ! a), j_Saving = id_NodeV (nodeList ! b),
             saving = distance depot (nodeList ! a) + distance depot (nodeList ! b) -
                      distance (nodeList ! a) (nodeList ! b)\<rparr>)
       (orderPairs nodeList) \<and>
   distinct (orderPairs nodeList) \<and>
   set (orderPairs nodeList) =
     {(a, b). a < b \<and> b < length nodeList \<and>
              type (nodeList ! a) = ORDER \<and> type (nodeList ! b) = ORDER}"
proof (intro conjI)
  show "calculateSavings depot nodeList =
     map (\<lambda>(a, b).
            \<lparr>i_Saving = id_NodeV (nodeList ! a), j_Saving = id_NodeV (nodeList ! b),
             saving = distance depot (nodeList ! a) + distance depot (nodeList ! b) -
                      distance (nodeList ! a) (nodeList ! b)\<rparr>)
       (orderPairs nodeList)"
    by (simp add: calculateSavings_orderPairs savingOf_def)
  show "distinct (orderPairs nodeList)"
    by (rule distinct_orderPairs)
  show "set (orderPairs nodeList) =
     {(a, b). a < b \<and> b < length nodeList \<and>
              type (nodeList ! a) = ORDER \<and> type (nodeList ! b) = ORDER}"
    by (rule set_orderPairs)
qed

section \<open>capacityUsed is never negative\<close>






section \<open>Nodes left unassigned by the savings loop\<close>

lemma unassigned_sample_savings:
  "sortSavings (calculateSavings (depotAt 1 0 None)
     [orderAt ''A'' 0 6, orderAt ''B'' 0 11, vendorAt ''V'' 0 (- 2)]) =
   [savingRec ''A'' ''B'' 0]"
  by (simp add: savings_eval sample_simps savingRec_def sortSavings_def)

lemma unassigned_sample_store:
  "afterSavings strNum (depotAt 1 0 None)
     [orderAt ''A'' 0 6, orderAt ''B'' 0 11, vendorAt ''V'' 0 (- 2)] = emptyStore"
  unfolding afterSavings_def unassigned_sample_savings
  by (simp add: merge_eval sample_simps)

lemma unassigned_sample:
  "clarkWright strNum (depotAt 1 0 None)
     [orderAt ''A'' 0 6, orderAt ''B'' 0 11, vendorAt ''V'' 0 (- 2)] =
   [\<lparr>nodes = [IdString ''A''], capacityUsed = 4, vehicleCapacity = 10\<rparr>,
    \<lparr>nodes = [IdString ''V''], capacityUsed = 8, vehicleCapacity = 10\<rparr>]"
  unfolding clarkWright_def unassigned_sample_store
  by (simp add: merge_eval sample_simps)

lemma unassigned_sample_distinct:
  "distinct (map id_NodeV [orderAt ''A'' 0 6, orderAt ''B'' 0 11, vendorAt ''V'' 0 (- 2)])"
  by (simp add: sample_simps)

lemma unassigned_absent:
  assumes "distinct (map id_NodeV nodeList)" and "n \<in> set nodeList"
      and "nodeToRoute (afterSavings strNum depot nodeList) (id_NodeV n) = None"
      and "\<not> fits depot n"
  shows "\<forall>r \<in> set (clarkWright strNum depot nodeList). id_NodeV n \<notin> set (nodes r)"
  using unassigned_routes[OF assms(1-3)] assms(4) by blast



section \<open>A node whose demand exceeds the capacity\<close>

text \<open>
  C8 as stated fails: \<^verbatim>\<open>clarkWright\<close> returns the array of Routes and nothing
  else. For one order of demand 11 under the capacity 10 the result is the empty
  array, the result for no node at all.
\<close>

theorem overcapacity_node_not_reported:
  "\<forall>strNum.
   \<not> fits (depotAt 1 0 None) (orderAt ''A'' 0 11) \<and>
   clarkWright strNum (depotAt 1 0 None) [orderAt ''A'' 0 11] = [] \<and>
   clarkWright strNum (depotAt 1 0 None) [] = []"
  (is "\<forall>strNum. ?P strNum")
proof (rule allI)
  fix strNum :: StringToNumber
  show "?P strNum"
  proof (intro conjI)
    show "\<not> fits (depotAt 1 0 None) (orderAt ''A'' 0 11)"
      by (simp add: fits_def capacityOrDefault_def VEHICLE_INITIAL_CAPACITY_def sample_simps)
    show "clarkWright strNum (depotAt 1 0 None) [orderAt ''A'' 0 11] = []"
      by (simp add: clarkWright_def afterSavings_def sortSavings_def savings_eval merge_eval
          sample_simps)
    show "clarkWright strNum (depotAt 1 0 None) [] = []"
      by (simp add: clarkWright_def afterSavings_def sortSavings_def savings_eval merge_eval)
  qed
qed

text \<open>
  C8, amended. The fallback loop does nothing for a node whose demand does not
  fit: the store (Routes, collection and \<^verbatim>\<open>nodeToRoute\<close>) stays as it was, so
  nothing records the node. When the identities of the node list are distinct and
  the node was unassigned after the savings loop, no returned Route mentions it:
  the node is silently absent from the result.
\<close>

theorem overcapacity_node_absent:
  "(\<not> fits depot n \<longrightarrow> fallbackNode depot n st = st) \<and>
   (distinct (map id_NodeV nodeList) \<and> n \<in> set nodeList \<and>
    nodeToRoute (afterSavings strNum depot nodeList) (id_NodeV n) = None \<and> \<not> fits depot n \<longrightarrow>
      (\<forall>r \<in> set (clarkWright strNum depot nodeList). id_NodeV n \<notin> set (nodes r)))"
proof (intro conjI impI)
  assume "\<not> fits depot n"
  then have "\<not> (nodeToRoute st (id_NodeV n) = None \<and>
         ((type n = ORDER \<and> demand n \<le> capacityOrDefault depot) \<or>
          (type n = VENDOR \<and> \<bar>demand n\<bar> \<le> capacityOrDefault depot)))"
    by (simp add: fits_def)
  then show "fallbackNode depot n st = st"
    by (simp only: fallbackNode_eq[of depot n st] if_False)
next
  assume "distinct (map id_NodeV nodeList) \<and> n \<in> set nodeList \<and>
    nodeToRoute (afterSavings strNum depot nodeList) (id_NodeV n) = None \<and> \<not> fits depot n"
  then show "\<forall>r \<in> set (clarkWright strNum depot nodeList). id_NodeV n \<notin> set (nodes r)"
    using unassigned_absent by blast
qed

text \<open>The witness: the order B of demand 11 of the sample above.\<close>

theorem overcapacity_node_absent_witness:
  "\<forall>strNum.
   \<not> fits (depotAt 1 0 None) (orderAt ''B'' 0 11) \<and>
   fallbackNode (depotAt 1 0 None) (orderAt ''B'' 0 11) emptyStore = emptyStore \<and>
   distinct (map id_NodeV [orderAt ''A'' 0 6, orderAt ''B'' 0 11, vendorAt ''V'' 0 (- 2)]) \<and>
   orderAt ''B'' 0 11 \<in> set [orderAt ''A'' 0 6, orderAt ''B'' 0 11, vendorAt ''V'' 0 (- 2)] \<and>
   nodeToRoute (afterSavings strNum (depotAt 1 0 None)
       [orderAt ''A'' 0 6, orderAt ''B'' 0 11, vendorAt ''V'' 0 (- 2)])
     (id_NodeV (orderAt ''B'' 0 11)) = None \<and>
   \<lparr>nodes = [IdString ''V''], capacityUsed = 8, vehicleCapacity = 10\<rparr>
     \<in> set (clarkWright strNum (depotAt 1 0 None)
          [orderAt ''A'' 0 6, orderAt ''B'' 0 11, vendorAt ''V'' 0 (- 2)]) \<and>
   id_NodeV (orderAt ''B'' 0 11) \<notin>
     set (nodes \<lparr>nodes = [IdString ''V''], capacityUsed = 8, vehicleCapacity = 10\<rparr>)"
  (is "\<forall>strNum. ?P strNum")
proof (rule allI)
  fix strNum :: StringToNumber
  let ?d = "depotAt 1 0 None"
  let ?ns = "[orderAt ''A'' 0 6, orderAt ''B'' 0 11, vendorAt ''V'' 0 (- 2)]"
  note inst = overcapacity_node_absent[of ?d "orderAt ''B'' 0 11" emptyStore ?ns strNum]
  have fb: "\<not> fits ?d (orderAt ''B'' 0 11)"
    by (simp add: fits_def capacityOrDefault_def VEHICLE_INITIAL_CAPACITY_def sample_simps)
  have b: "orderAt ''B'' 0 11 \<in> set ?ns" by simp
  have ub: "nodeToRoute (afterSavings strNum ?d ?ns) (id_NodeV (orderAt ''B'' 0 11)) = None"
    by (simp add: unassigned_sample_store emptyStore_def)
  have rv: "\<lparr>nodes = [IdString ''V''], capacityUsed = 8, vehicleCapacity = 10\<rparr>
     \<in> set (clarkWright strNum ?d ?ns)"
    by (simp add: unassigned_sample)
  from inst fb have 1: "fallbackNode ?d (orderAt ''B'' 0 11) emptyStore = emptyStore" by blast
  from inst unassigned_sample_distinct b ub fb rv
  have 2: "id_NodeV (orderAt ''B'' 0 11) \<notin>
     set (nodes \<lparr>nodes = [IdString ''V''], capacityUsed = 8, vehicleCapacity = 10\<rparr>)"
    by blast
  from fb 1 unassigned_sample_distinct b ub rv 2 show "?P strNum" by blast
qed

section \<open>A vendor at a distance that is not a number\<close>

lemma formDepotClusters_member:
  assumes "formDepotClusters distNum depotList vendorList orderList k = Some cs"
      and "c \<in> set cs"
  shows "getNearestDepot distNum depotList (vendor c) = Some k"
proof -
  let ?vs = "filter (\<lambda>v. getNearestDepot distNum depotList v = Some k) vendorList"
  from assms(1) have "cs = map (clusterOf orderList) ?vs"
    by (simp add: formDepotClusters_eq split: if_splits)
  with assms(2) obtain v where v: "v \<in> set ?vs" and c: "c = clusterOf orderList v" by auto
  from v have "getNearestDepot distNum depotList v = Some k" by simp
  with c show ?thesis by (simp add: clusterOf_def)
qed

text \<open>
  C9 (the code departs from the claim). The claim: every vendor of the vendor
  list is assigned to a depot to which no other depot is strictly closer, and
  only an empty depot list excludes a vendor. The search starts from
  \<^verbatim>\<open>Infinity\<close> and takes a depot when \<^verbatim>\<open>_distance < nearestDepotDistance\<close>,
  which is false for a distance that is NaN. So when the distance that the source
  computes from every depot to a vendor is NaN (or \<^verbatim>\<open>Infinity\<close>), the search
  returns \<^verbatim>\<open>null\<close>, the step of \<^verbatim>\<open>formDepotClusters\<close> for this vendor leaves
  the mapping as it was, and no cluster of the result holds the vendor, however
  many depots the list has. The source's \<^verbatim>\<open>distance\<close> is NaN for a depot at
  (8, 0) and a vendor at (-8, 180), two valid coordinates.
\<close>

theorem vendor_without_comparable_distance_is_dropped:
  assumes "\<forall>d \<in> set depotList. \<not> numberLess (distNum d v) PlusInfinity"
  shows "getNearestDepot distNum depotList v = None \<and>
         addVendorCluster distNum depotList orderList v depotClusters = depotClusters \<and>
         (\<forall>k cs. formDepotClusters distNum depotList vendorList orderList k = Some cs \<longrightarrow>
            (\<forall>c \<in> set cs. vendor c \<noteq> v))"
proof (intro conjI allI impI ballI)
  from assms show none: "getNearestDepot distNum depotList v = None"
    by (simp only: getNearestDepot_None_iff)
  then show "addVendorCluster distNum depotList orderList v depotClusters = depotClusters"
    by (simp add: addVendorCluster_eq)
  fix k cs c
  assume "formDepotClusters distNum depotList vendorList orderList k = Some cs" and "c \<in> set cs"
  then have "getNearestDepot distNum depotList (vendor c) = Some k"
    by (rule formDepotClusters_member)
  with none show "vendor c \<noteq> v" by auto
qed

text \<open>
  The witness: the depot 1 at (8, 0), the vendor V at (-8, 180) and a vendor W on
  the equator, with one order each. The distance from the depot to V is NaN: the
  depot list is not empty, V gets no depot, and the only cluster of the result
  is that of W.
\<close>

theorem vendor_without_comparable_distance_is_dropped_witness:
  "sampleDistance depotNorth vendorAntipode = NaN \<and>
   [depotNorth] \<noteq> [] \<and>
   getNearestDepot sampleDistance [depotNorth] vendorAntipode = None \<and>
   getNearestDepot sampleDistance [depotNorth] (vendorAt ''W'' 1 (- 1)) = Some (IdNumber 1) \<and>
   formDepotClusters sampleDistance [depotNorth] [vendorAntipode, vendorAt ''W'' 1 (- 1)]
     [orderFrom ''V'' ''A'' 179 2, orderFrom ''W'' ''B'' 1 1] =
     (\<lambda>k. None)(IdNumber 1 \<mapsto>
       [\<lparr>vendor = vendorAt ''W'' 1 (- 1), orders = [orderFrom ''W'' ''B'' 1 1]\<rparr>]) \<and>
   vendor \<lparr>vendor = vendorAt ''W'' 1 (- 1), orders = [orderFrom ''W'' ''B'' 1 1]\<rparr> \<noteq>
     vendorAntipode"
proof -
  let ?vs = "[vendorAntipode, vendorAt ''W'' 1 (- 1)]"
  let ?os = "[orderFrom ''V'' ''A'' 179 2, orderFrom ''W'' ''B'' 1 1]"
  let ?c = "\<lparr>vendor = vendorAt ''W'' 1 (- 1), orders = [orderFrom ''W'' ''B'' 1 1]\<rparr>"
  have nan: "sampleDistance depotNorth vendorAntipode = NaN"
    by (simp add: sampleDistance_def depotNorth_def vendorAntipode_def)
  then have hyp: "\<forall>d \<in> set [depotNorth]. \<not> numberLess (sampleDistance d vendorAntipode) PlusInfinity"
    by simp
  note inst = vendor_without_comparable_distance_is_dropped
    [of "[depotNorth]" sampleDistance vendorAntipode ?os "\<lambda>k. None" ?vs, OF hyp]
  from inst have none: "getNearestDepot sampleDistance [depotNorth] vendorAntipode = None"
    by (rule conjunct1)
  have w: "getNearestDepot sampleDistance [depotNorth] (vendorAt ''W'' 1 (- 1)) = Some (IdNumber 1)"
    by (simp add: getNearestDepot_def sampleDistance_def depotNorth_def vendorAt_def Let_def)
  have step: "addVendorCluster sampleDistance [depotNorth] ?os vendorAntipode (\<lambda>k. None) = (\<lambda>k. None)"
    using inst by blast
  have form: "formDepotClusters sampleDistance [depotNorth] ?vs ?os = (\<lambda>k. None)(IdNumber 1 \<mapsto> [?c])"
    unfolding formDepotClusters_def
    by (simp add: step) (simp add: addVendorCluster_eq w clusterOf_def sample_simps)
  then have at1: "formDepotClusters sampleDistance [depotNorth] ?vs ?os (IdNumber 1) = Some [?c]"
    by simp
  have mem: "?c \<in> set [?c]" by simp
  from inst[THEN conjunct2, THEN conjunct2] at1 mem
  have other: "vendor ?c \<noteq> vendorAntipode" by blast
  from nan none w form other show ?thesis by (intro conjI) simp_all
qed

section \<open>A vendor is routed alone\<close>

lemma processSaving_dom:
  "dom (nodeToRoute (processSaving strNum depot nodeList sv st)) \<subseteq>
     dom (nodeToRoute st) \<union> {i_Saving sv, j_Saving sv}"
proof (cases rule: processSaving_cases[of strNum depot nodeList sv st])
  case unchanged
  then show ?thesis by auto
next
  case (create c)
  then show ?thesis by auto
next
  case (attach r k k' ns c)
  then show ?thesis by auto
next
  case (merge ri rj k ns c)
  then show ?thesis by auto
qed

lemma savingsLoop_dom:
  "dom (nodeToRoute (savingsLoop strNum depot nodeList ss st)) \<subseteq>
     dom (nodeToRoute st) \<union> (i_Saving ` set ss \<union> j_Saving ` set ss)"
  unfolding savingsLoop_def
proof (induction ss arbitrary: st)
  case Nil
  show ?case by simp
next
  case (Cons s ss)
  from Cons.IH[of "processSaving strNum depot nodeList s st"] processSaving_dom[of strNum depot nodeList s st]
  show ?case by auto
qed

lemma calculateSavings_endpoints:
  assumes "s \<in> set (calculateSavings depot nodeList)"
  shows "\<exists>a b. a < length nodeList \<and> b < length nodeList \<and>
           type (nodeList ! a) = ORDER \<and> type (nodeList ! b) = ORDER \<and>
           i_Saving s = id_NodeV (nodeList ! a) \<and> j_Saving s = id_NodeV (nodeList ! b)"
proof -
  from assms obtain a b where ab: "(a, b) \<in> set (orderPairs nodeList)"
    and s: "s = savingOf depot (nodeList ! a) (nodeList ! b)"
    unfolding calculateSavings_orderPairs by auto
  from ab have "a < b" "b < length nodeList" "type (nodeList ! a) = ORDER"
    "type (nodeList ! b) = ORDER"
    unfolding set_orderPairs by simp_all
  with s show ?thesis by (intro exI[of _ a] exI[of _ b]) (simp add: savingOf_def)
qed

lemma afterSavings_dom:
  assumes "k \<in> dom (nodeToRoute (afterSavings strNum depot nodeList))"
  shows "\<exists>a < length nodeList. type (nodeList ! a) = ORDER \<and> k = id_NodeV (nodeList ! a)"
proof -
  let ?ss = "sortSavings (calculateSavings depot nodeList)"
  from assms savingsLoop_dom[of strNum depot nodeList ?ss emptyStore]
  have "k \<in> i_Saving ` set ?ss \<union> j_Saving ` set ?ss"
    unfolding afterSavings_def by (auto simp: emptyStore_def)
  then obtain s where "s \<in> set (calculateSavings depot nodeList)" "k = i_Saving s \<or> k = j_Saving s"
    by (auto simp: sortSavings_def)
  with calculateSavings_endpoints[of s depot nodeList] show ?thesis by auto
qed

lemma vendor_unassigned:
  assumes d: "distinct (map id_NodeV nodeList)" and n: "n \<in> set nodeList"
      and v: "type n = VENDOR"
  shows "nodeToRoute (afterSavings strNum depot nodeList) (id_NodeV n) = None"
proof (rule ccontr)
  assume "nodeToRoute (afterSavings strNum depot nodeList) (id_NodeV n) \<noteq> None"
  then have "id_NodeV n \<in> dom (nodeToRoute (afterSavings strNum depot nodeList))" by auto
  from afterSavings_dom[OF this] obtain a where a: "a < length nodeList"
    "type (nodeList ! a) = ORDER" "id_NodeV n = id_NodeV (nodeList ! a)" by blast
  from a(1) have "nodeList ! a \<in> set nodeList" by simp
  with d n a(3) have "n = nodeList ! a" by (meson distinct_map inj_onD)
  with a(2) v show False by simp
qed

lemma vendor_route:
  assumes "distinct (map id_NodeV nodeList)" and "n \<in> set nodeList" and "type n = VENDOR"
      and "r \<in> set (clarkWright strNum depot nodeList)" and "id_NodeV n \<in> set (nodes r)"
  shows "r = fallbackRoute depot n"
  using unassigned_routes[OF assms(1,2) vendor_unassigned[OF assms(1-3)] assms(4,5)] by simp

lemma routeWithinClusters_Some:
  assumes "routeWithinClusters strNum depotList depotClusters k = Some rs"
  shows "\<exists>depot \<in> set depotList. \<exists>clusters.
            k = IdNumber (id_Vehicle depot) \<and> depotClusters k = Some clusters \<and>
            rs = concat (map (\<lambda>c. clarkWright strNum depot (vendor c # orders c)) clusters)"
  using fold_routeDepot[of strNum depotClusters depotList "\<lambda>k. None" k rs] assms
  by (simp add: routeWithinClusters_def)

lemma vendor_sample:
  "clarkWright strNum (depotAt 1 0 None) [vendorAt ''V'' 0 (- 2), orderAt ''A'' 0 1, orderAt ''B'' 0 1] =
     [\<lparr>nodes = [IdString ''A'', IdString ''B''], capacityUsed = 8, vehicleCapacity = 10\<rparr>,
      \<lparr>nodes = [IdString ''V''], capacityUsed = 8, vehicleCapacity = 10\<rparr>]"
proof -
  have "sortSavings (calculateSavings (depotAt 1 0 None)
          [vendorAt ''V'' 0 (- 2), orderAt ''A'' 0 1, orderAt ''B'' 0 1]) =
        [savingRec ''A'' ''B'' 0]"
    by (simp add: savings_eval sample_simps savingRec_def sortSavings_def)
  then show ?thesis
    unfolding clarkWright_def afterSavings_def by (simp add: merge_eval sample_simps)
qed

text \<open>
  C10. When the identities of the node list are distinct, a returned Route that
  mentions a node of type VENDOR is the one-node fallback Route of that vendor
  (the savings pair orders only, so the savings loop never registers a vendor).
  Every Route list that \<^verbatim>\<open>routeWithinClusters\<close> stores comes from a depot of the
  list and the clusters under its key, as the concatenation of the results of
  \<^verbatim>\<open>clarkWright\<close> on \<open>vendor # orders\<close>; for a cluster with a vendor of type VENDOR
  and distinct identities, a Route of its result that mentions the vendor
  mentions nothing else: the vendor is never routed together with its orders.
\<close>

theorem vendor_only_in_fallback_route:
  "(distinct (map id_NodeV nodeList) \<longrightarrow>
      (\<forall>n \<in> set nodeList. type n = VENDOR \<longrightarrow>
         (\<forall>r \<in> set (clarkWright strNum depot nodeList). id_NodeV n \<in> set (nodes r) \<longrightarrow>
            r = fallbackRoute depot n \<and> nodes r = [id_NodeV n]))) \<and>
   (\<forall>k rs. routeWithinClusters strNum depotList depotClusters k = Some rs \<longrightarrow>
      (\<exists>depot' \<in> set depotList. \<exists>clusters.
         k = IdNumber (id_Vehicle depot') \<and> depotClusters k = Some clusters \<and>
         rs = concat (map (\<lambda>c. clarkWright strNum depot' (vendor c # orders c)) clusters) \<and>
         (\<forall>c \<in> set clusters.
            type (vendor c) = VENDOR \<and> distinct (map id_NodeV (vendor c # orders c)) \<longrightarrow>
            (\<forall>r \<in> set (clarkWright strNum depot' (vendor c # orders c)).
               id_NodeV (vendor c) \<in> set (nodes r) \<longrightarrow> nodes r = [id_NodeV (vendor c)]))))"
proof (intro conjI impI ballI allI)
  fix n r
  assume "distinct (map id_NodeV nodeList)" "n \<in> set nodeList" "type n = VENDOR"
    "r \<in> set (clarkWright strNum depot nodeList)" "id_NodeV n \<in> set (nodes r)"
  from vendor_route[OF this]
  show "r = fallbackRoute depot n" and "nodes r = [id_NodeV n]"
    by (simp_all add: fallbackRoute_def)
next
  fix k rs
  assume "routeWithinClusters strNum depotList depotClusters k = Some rs"
  from routeWithinClusters_Some[OF this] obtain depot' clusters where
    dc: "depot' \<in> set depotList" "k = IdNumber (id_Vehicle depot')"
      "depotClusters k = Some clusters"
      "rs = concat (map (\<lambda>c. clarkWright strNum depot' (vendor c # orders c)) clusters)" by blast
  have "\<forall>c \<in> set clusters.
          type (vendor c) = VENDOR \<and> distinct (map id_NodeV (vendor c # orders c)) \<longrightarrow>
          (\<forall>r \<in> set (clarkWright strNum depot' (vendor c # orders c)).
             id_NodeV (vendor c) \<in> set (nodes r) \<longrightarrow> nodes r = [id_NodeV (vendor c)])"
  proof (intro ballI impI)
    fix c :: VendorOrderCluster and r :: Route
    assume c: "type (vendor c) = VENDOR \<and> distinct (map id_NodeV (vendor c # orders c))"
      and r: "r \<in> set (clarkWright strNum depot' (vendor c # orders c))"
        "id_NodeV (vendor c) \<in> set (nodes r)"
    from c have "distinct (map id_NodeV (vendor c # orders c))" "type (vendor c) = VENDOR"
      by simp_all
    from vendor_route[OF this(1) _ this(2) r]
    show "nodes r = [id_NodeV (vendor c)]" by (simp add: fallbackRoute_def)
  qed
  with dc show "\<exists>depot' \<in> set depotList. \<exists>clusters.
         k = IdNumber (id_Vehicle depot') \<and> depotClusters k = Some clusters \<and>
         rs = concat (map (\<lambda>c. clarkWright strNum depot' (vendor c # orders c)) clusters) \<and>
         (\<forall>c \<in> set clusters.
            type (vendor c) = VENDOR \<and> distinct (map id_NodeV (vendor c # orders c)) \<longrightarrow>
            (\<forall>r \<in> set (clarkWright strNum depot' (vendor c # orders c)).
               id_NodeV (vendor c) \<in> set (nodes r) \<longrightarrow> nodes r = [id_NodeV (vendor c)]))"
    by (intro bexI[of _ depot'] exI[of _ clusters] conjI)
qed

text \<open>
  The witness: the vendor V (demand -2) with its orders A and B (demand 1 each)
  at one place, under the default capacity 10. The orders share a Route; the
  vendor has a Route of its own.
\<close>

theorem vendor_only_in_fallback_route_witness:
  "\<forall>strNum.
   distinct (map id_NodeV [vendorAt ''V'' 0 (- 2), orderAt ''A'' 0 1, orderAt ''B'' 0 1]) \<and>
   vendorAt ''V'' 0 (- 2) \<in> set [vendorAt ''V'' 0 (- 2), orderAt ''A'' 0 1, orderAt ''B'' 0 1] \<and>
   type (vendorAt ''V'' 0 (- 2)) = VENDOR \<and>
   \<lparr>nodes = [IdString ''V''], capacityUsed = 8, vehicleCapacity = 10\<rparr>
     \<in> set (clarkWright strNum (depotAt 1 0 None)
          [vendorAt ''V'' 0 (- 2), orderAt ''A'' 0 1, orderAt ''B'' 0 1]) \<and>
   id_NodeV (vendorAt ''V'' 0 (- 2))
     \<in> set (nodes \<lparr>nodes = [IdString ''V''], capacityUsed = 8, vehicleCapacity = 10\<rparr>) \<and>
   \<lparr>nodes = [IdString ''V''], capacityUsed = 8, vehicleCapacity = 10\<rparr> =
     fallbackRoute (depotAt 1 0 None) (vendorAt ''V'' 0 (- 2)) \<and>
   clarkWright strNum (depotAt 1 0 None) [vendorAt ''V'' 0 (- 2), orderAt ''A'' 0 1, orderAt ''B'' 0 1] =
     [\<lparr>nodes = [IdString ''A'', IdString ''B''], capacityUsed = 8, vehicleCapacity = 10\<rparr>,
      \<lparr>nodes = [IdString ''V''], capacityUsed = 8, vehicleCapacity = 10\<rparr>] \<and>
   routeWithinClusters strNum [depotAt 1 0 None]
     ((\<lambda>k. None)(IdNumber 1 \<mapsto>
        [\<lparr>vendor = vendorAt ''V'' 0 (- 2), orders = [orderAt ''A'' 0 1, orderAt ''B'' 0 1]\<rparr>]))
     (IdNumber 1) =
     Some [\<lparr>nodes = [IdString ''A'', IdString ''B''], capacityUsed = 8, vehicleCapacity = 10\<rparr>,
           \<lparr>nodes = [IdString ''V''], capacityUsed = 8, vehicleCapacity = 10\<rparr>]"
  (is "\<forall>strNum. ?P strNum")
proof (rule allI)
  fix strNum :: StringToNumber
  let ?d = "depotAt 1 0 None"
  let ?v = "vendorAt ''V'' 0 (- 2)"
  let ?ns = "[?v, orderAt ''A'' 0 1, orderAt ''B'' 0 1]"
  let ?r = "\<lparr>nodes = [IdString ''V''], capacityUsed = 8, vehicleCapacity = 10\<rparr>"
  have inst: "distinct (map id_NodeV ?ns) \<longrightarrow>
      (\<forall>n \<in> set ?ns. type n = VENDOR \<longrightarrow>
         (\<forall>r \<in> set (clarkWright strNum ?d ?ns). id_NodeV n \<in> set (nodes r) \<longrightarrow>
            r = fallbackRoute ?d n \<and> nodes r = [id_NodeV n]))"
    using vendor_only_in_fallback_route[of ?ns strNum ?d "[]" "\<lambda>k. None"] by (rule conjunct1)
  have dst: "distinct (map id_NodeV ?ns)" by (simp add: sample_simps)
  have v: "?v \<in> set ?ns" by simp
  have t: "type ?v = VENDOR" by (simp add: sample_simps)
  have r: "?r \<in> set (clarkWright strNum ?d ?ns)" by (simp add: vendor_sample)
  have m: "id_NodeV ?v \<in> set (nodes ?r)" by (simp add: sample_simps)
  from inst dst v t r m have eq: "?r = fallbackRoute ?d ?v" by blast
  have rw: "routeWithinClusters strNum [?d]
     ((\<lambda>k. None)(IdNumber 1 \<mapsto> [\<lparr>vendor = ?v, orders = [orderAt ''A'' 0 1, orderAt ''B'' 0 1]\<rparr>]))
     (IdNumber 1) =
     Some [\<lparr>nodes = [IdString ''A'', IdString ''B''], capacityUsed = 8, vehicleCapacity = 10\<rparr>, ?r]"
    by (simp add: routeWithinClusters_def routeDepot_def vendor_sample sample_simps)
  from dst v t r m eq vendor_sample rw show "?P strNum" by (intro conjI)
qed

section \<open>Concatenation of two Routes\<close>

text \<open>
  What the step does with the orientation, whatever the capacities: a saving
  whose two nodes are registered under two different Route objects leaves the
  store unchanged when neither orientation matches, and otherwise either leaves it
  unchanged or makes the Route of \<open>i\<close> the concatenation in the orientation that
  matches, the first orientation being tried first.
\<close>

lemma processSaving_orientation:
  assumes "find (\<lambda>node. id_NodeV node = i_Saving sv) nodeList = Some node_i"
      and "find (\<lambda>node. id_NodeV node = j_Saving sv) nodeList = Some node_j"
      and "nodeToRoute st (i_Saving sv) = Some ri" and "nodeToRoute st (j_Saving sv) = Some rj"
      and "ri \<noteq> rj" and "ri < length (heap st)"
  shows "(\<not> (lastIs strNum (nodes (heap st ! ri)) (i_Saving sv) \<and>
             firstIs strNum (nodes (heap st ! rj)) (j_Saving sv)) \<and>
          \<not> (firstIs strNum (nodes (heap st ! ri)) (i_Saving sv) \<and>
             lastIs strNum (nodes (heap st ! rj)) (j_Saving sv)) \<longrightarrow>
            processSaving strNum depot nodeList sv st = st) \<and>
         (processSaving strNum depot nodeList sv st = st \<or>
          (lastIs strNum (nodes (heap st ! ri)) (i_Saving sv) \<and>
           firstIs strNum (nodes (heap st ! rj)) (j_Saving sv) \<and>
           nodes (heap (processSaving strNum depot nodeList sv st) ! ri) =
             nodes (heap st ! ri) @ nodes (heap st ! rj)) \<or>
          (\<not> (lastIs strNum (nodes (heap st ! ri)) (i_Saving sv) \<and>
              firstIs strNum (nodes (heap st ! rj)) (j_Saving sv)) \<and>
           firstIs strNum (nodes (heap st ! ri)) (i_Saving sv) \<and>
           lastIs strNum (nodes (heap st ! rj)) (j_Saving sv) \<and>
           nodes (heap (processSaving strNum depot nodeList sv st) ! ri) =
             nodes (heap st ! rj) @ nodes (heap st ! ri)))"
proof -
  let ?c = "0 \<le> capacityUsed (heap st ! ri) - demandEffect node_j \<and>
            0 \<le> capacityUsed (heap st ! rj) - demandEffect node_i"
  let ?o1 = "lastIs strNum (nodes (heap st ! ri)) (i_Saving sv) \<and>
             firstIs strNum (nodes (heap st ! rj)) (j_Saving sv)"
  let ?o2 = "firstIs strNum (nodes (heap st ! ri)) (i_Saving sv) \<and>
             lastIs strNum (nodes (heap st ! rj)) (j_Saving sv)"
  note eq = processSaving_both[OF assms(1-4), of strNum depot]
  show ?thesis
  proof (cases ?c)
    case False
    then have "processSaving strNum depot nodeList sv st = st"
      by (auto simp: eq)
    then show ?thesis by simp
  next
    case c: True
    show ?thesis
    proof (cases ?o1)
      case o1: True
      have "nodes (heap (processSaving strNum depot nodeList sv st) ! ri) =
              nodes (heap st ! ri) @ nodes (heap st ! rj)"
        using c o1 assms(5,6) by (simp add: eq)
      with o1 show ?thesis by simp
    next
      case no1: False
      show ?thesis
      proof (cases ?o2)
        case o2: True
        have "nodes (heap (processSaving strNum depot nodeList sv st) ! ri) =
                nodes (heap st ! rj) @ nodes (heap st ! ri)"
          using c no1 o2 assms(5,6) by (auto simp: eq)
        with no1 o2 show ?thesis by simp
      next
        case no2: False
        have "processSaving strNum depot nodeList sv st = st"
          using c no1 no2 assms(5) by (auto simp: eq)
        then show ?thesis by simp
      qed
    qed
  qed
qed

lemma adopted_savings:
  "sortSavings (calculateSavings (depotAt 1 0 None)
      [orderAt ''A'' 90 5, orderAt ''B'' 90 1, orderAt ''C'' (- 90) 1, orderAt ''D'' (- 90) 5]) =
   [savingRec ''A'' ''B'' (6371 * pi), savingRec ''C'' ''D'' (6371 * pi),
    savingRec ''A'' ''C'' 0, savingRec ''A'' ''D'' 0,
    savingRec ''B'' ''C'' 0, savingRec ''B'' ''D'' 0]"
proof -
  have "calculateSavings (depotAt 1 0 None)
      [orderAt ''A'' 90 5, orderAt ''B'' 90 1, orderAt ''C'' (- 90) 1, orderAt ''D'' (- 90) 5] =
    [savingRec ''A'' ''B'' (6371 * pi), savingRec ''A'' ''C'' 0, savingRec ''A'' ''D'' 0,
     savingRec ''B'' ''C'' 0, savingRec ''B'' ''D'' 0, savingRec ''C'' ''D'' (6371 * pi)]"
    by (simp add: savings_eval sample_simps savingRec_def)
  then show ?thesis by (simp add: sortSavings_def sample_simps)
qed

lemma adopted_store:
  "savingsLoop strNum (depotAt 1 0 None)
     [orderAt ''A'' 90 5, orderAt ''B'' 90 1, orderAt ''C'' (- 90) 1, orderAt ''D'' (- 90) 5]
     [savingRec ''A'' ''B'' (6371 * pi), savingRec ''C'' ''D'' (6371 * pi),
      savingRec ''A'' ''C'' 0, savingRec ''A'' ''D'' 0] emptyStore =
   \<lparr>heap = [\<lparr>nodes = [IdString ''A'', IdString ''B''], capacityUsed = 4, vehicleCapacity = 10\<rparr>,
            \<lparr>nodes = [IdString ''C'', IdString ''D''], capacityUsed = 4, vehicleCapacity = 10\<rparr>],
    routes = [0, 1],
    nodeToRoute = (\<lambda>k. None)(IdString ''A'' \<mapsto> 0, IdString ''B'' \<mapsto> 0,
                              IdString ''C'' \<mapsto> 1, IdString ''D'' \<mapsto> 1)\<rparr>"
  by (simp add: merge_eval sample_simps)

text \<open>
  C4 (the code departs from the claim). The claim: the resulting capacity is
  computed for the orientation, the Routes are concatenated when it is
  non-negative and that capacity is adopted; otherwise the saving is skipped.
  Orders A (demand 5) and B (1) to the east, C (1) and D (5) to the west, under
  the default capacity 10. After the first four ranked savings the Routes are
  [A,B] and [C,D], each of load 6 and capacityUsed 4. The fifth saving is (B,C):
  B is the last element of its Route and C the first of the other, so the
  orientation matches. The concatenation has the load 12, and the capacity that
  results is 10 - 12 = -2, negative: the saving is to be skipped. The code
  concatenates the two Routes into [A,B,C,D] and stores the capacityUsed 3, the
  capacityUsed of [A,B] less the demand of C alone. This Route is the result of
  \<^verbatim>\<open>clarkWright\<close>.
\<close>

theorem processSaving_adopts_one_node_capacity:
  "sortSavings (calculateSavings (depotAt 1 0 None)
      [orderAt ''A'' 90 5, orderAt ''B'' 90 1, orderAt ''C'' (- 90) 1, orderAt ''D'' (- 90) 5]) =
     [savingRec ''A'' ''B'' (6371 * pi), savingRec ''C'' ''D'' (6371 * pi),
      savingRec ''A'' ''C'' 0, savingRec ''A'' ''D'' 0] @
     [savingRec ''B'' ''C'' 0, savingRec ''B'' ''D'' 0] \<and>
   (let nodeList =
          [orderAt ''A'' 90 5, orderAt ''B'' 90 1, orderAt ''C'' (- 90) 1, orderAt ''D'' (- 90) 5];
        st = savingsLoop strNum (depotAt 1 0 None) nodeList
               [savingRec ''A'' ''B'' (6371 * pi), savingRec ''C'' ''D'' (6371 * pi),
                savingRec ''A'' ''C'' 0, savingRec ''A'' ''D'' 0] emptyStore;
        st' = processSaving strNum (depotAt 1 0 None) nodeList (savingRec ''B'' ''C'' 0) st
    in routes st = [0, 1] \<and>
       heap st ! 0 =
         \<lparr>nodes = [IdString ''A'', IdString ''B''], capacityUsed = 4, vehicleCapacity = 10\<rparr> \<and>
       heap st ! 1 =
         \<lparr>nodes = [IdString ''C'', IdString ''D''], capacityUsed = 4, vehicleCapacity = 10\<rparr> \<and>
       nodeToRoute st (IdString ''B'') = Some 0 \<and> nodeToRoute st (IdString ''C'') = Some 1 \<and>
       lastIs strNum (nodes (heap st ! 0)) (IdString ''B'') \<and>
       firstIs strNum (nodes (heap st ! 1)) (IdString ''C'') \<and>
       routeLoad nodeList (heap st ! 0) = 6 \<and> routeLoad nodeList (heap st ! 1) = 6 \<and>
       capacityOrDefault (depotAt 1 0 None) -
         (routeLoad nodeList (heap st ! 0) + routeLoad nodeList (heap st ! 1)) = - 2 \<and>
       routes st' = [0] \<and>
       heap st' ! 0 =
         \<lparr>nodes = [IdString ''A'', IdString ''B'', IdString ''C'', IdString ''D''],
          capacityUsed = 3, vehicleCapacity = 10\<rparr> \<and>
       routeLoad nodeList (heap st' ! 0) = 12) \<and>
   clarkWright strNum (depotAt 1 0 None)
     [orderAt ''A'' 90 5, orderAt ''B'' 90 1, orderAt ''C'' (- 90) 1, orderAt ''D'' (- 90) 5] =
     [\<lparr>nodes = [IdString ''A'', IdString ''B'', IdString ''C'', IdString ''D''],
       capacityUsed = 3, vehicleCapacity = 10\<rparr>]"
proof (intro conjI)
  show "sortSavings (calculateSavings (depotAt 1 0 None)
      [orderAt ''A'' 90 5, orderAt ''B'' 90 1, orderAt ''C'' (- 90) 1, orderAt ''D'' (- 90) 5]) =
     [savingRec ''A'' ''B'' (6371 * pi), savingRec ''C'' ''D'' (6371 * pi),
      savingRec ''A'' ''C'' 0, savingRec ''A'' ''D'' 0] @
     [savingRec ''B'' ''C'' 0, savingRec ''B'' ''D'' 0]"
    unfolding adopted_savings by simp
  show "let nodeList =
          [orderAt ''A'' 90 5, orderAt ''B'' 90 1, orderAt ''C'' (- 90) 1, orderAt ''D'' (- 90) 5];
        st = savingsLoop strNum (depotAt 1 0 None) nodeList
               [savingRec ''A'' ''B'' (6371 * pi), savingRec ''C'' ''D'' (6371 * pi),
                savingRec ''A'' ''C'' 0, savingRec ''A'' ''D'' 0] emptyStore;
        st' = processSaving strNum (depotAt 1 0 None) nodeList (savingRec ''B'' ''C'' 0) st
    in routes st = [0, 1] \<and>
       heap st ! 0 =
         \<lparr>nodes = [IdString ''A'', IdString ''B''], capacityUsed = 4, vehicleCapacity = 10\<rparr> \<and>
       heap st ! 1 =
         \<lparr>nodes = [IdString ''C'', IdString ''D''], capacityUsed = 4, vehicleCapacity = 10\<rparr> \<and>
       nodeToRoute st (IdString ''B'') = Some 0 \<and> nodeToRoute st (IdString ''C'') = Some 1 \<and>
       lastIs strNum (nodes (heap st ! 0)) (IdString ''B'') \<and>
       firstIs strNum (nodes (heap st ! 1)) (IdString ''C'') \<and>
       routeLoad nodeList (heap st ! 0) = 6 \<and> routeLoad nodeList (heap st ! 1) = 6 \<and>
       capacityOrDefault (depotAt 1 0 None) -
         (routeLoad nodeList (heap st ! 0) + routeLoad nodeList (heap st ! 1)) = - 2 \<and>
       routes st' = [0] \<and>
       heap st' ! 0 =
         \<lparr>nodes = [IdString ''A'', IdString ''B'', IdString ''C'', IdString ''D''],
          capacityUsed = 3, vehicleCapacity = 10\<rparr> \<and>
       routeLoad nodeList (heap st' ! 0) = 12"
    unfolding Let_def adopted_store
    by (simp add: processSaving_def setNodeToRoute_def demandEffect_def firstIs_def lastIs_def
        splice1_def routeLoad_def capacityOrDefault_def VEHICLE_INITIAL_CAPACITY_def Let_def
        sample_simps)
  show "clarkWright strNum (depotAt 1 0 None)
     [orderAt ''A'' 90 5, orderAt ''B'' 90 1, orderAt ''C'' (- 90) 1, orderAt ''D'' (- 90) 5] =
     [\<lparr>nodes = [IdString ''A'', IdString ''B'', IdString ''C'', IdString ''D''],
       capacityUsed = 3, vehicleCapacity = 10\<rparr>]"
    unfolding clarkWright_def afterSavings_def adopted_savings
    by (simp add: merge_eval sample_simps)
qed


end
